theory Spec2Isabelle
  imports Complex_Main "HOL-Library.AList"
begin

section \<open>Exceptions as values\<close>

text \<open>
  Every exception the modelled Python code can raise is a value of \<open>error\<close>; a function
  that may raise returns \<open>error + 'a\<close>, with \<open>Inl\<close> for the raised exception.
  \<open>Exception msg\<close> stands for an exception raised by a wrapped operation body.
\<close>

datatype error =
    AttributeError string
  | KeyError string
  | ValueError string
  | AssertionError
  | ValidationError string
  | Exception string

section \<open>Relationship types (core/relationship.py)\<close>

datatype RelationshipType =
    IS_A | PART_OF | CONTAINS | SUBCLASS_OF
  | RELATED_TO | SIMILAR_TO | OPPOSITE_OF
  | PRODUCES | CONSUMES | USES | REGULATES | REGULATED_BY | EXTRACTED_FROM | LOCATED_IN
  | DEPENDS_ON | IMPROVES | REPLACES | CONNECTS | DEFINED_BY | REFERENCES | SUPERSEDES
  | ENFORCED_BY

text \<open>The members in definition order, each with its name; name and value coincide.\<close>

definition RelationshipType_members :: "(string \<times> RelationshipType) list" where
  "RelationshipType_members =
    [(''IS_A'', IS_A), (''PART_OF'', PART_OF), (''CONTAINS'', CONTAINS),
     (''SUBCLASS_OF'', SUBCLASS_OF), (''RELATED_TO'', RELATED_TO),
     (''SIMILAR_TO'', SIMILAR_TO), (''OPPOSITE_OF'', OPPOSITE_OF),
     (''PRODUCES'', PRODUCES), (''CONSUMES'', CONSUMES), (''USES'', USES),
     (''REGULATES'', REGULATES), (''REGULATED_BY'', REGULATED_BY),
     (''EXTRACTED_FROM'', EXTRACTED_FROM), (''LOCATED_IN'', LOCATED_IN),
     (''DEPENDS_ON'', DEPENDS_ON), (''IMPROVES'', IMPROVES), (''REPLACES'', REPLACES),
     (''CONNECTS'', CONNECTS), (''DEFINED_BY'', DEFINED_BY), (''REFERENCES'', REFERENCES),
     (''SUPERSEDES'', SUPERSEDES), (''ENFORCED_BY'', ENFORCED_BY)]"

fun rel_value :: "RelationshipType \<Rightarrow> string" where
  "rel_value IS_A = ''IS_A''"
| "rel_value PART_OF = ''PART_OF''"
| "rel_value CONTAINS = ''CONTAINS''"
| "rel_value SUBCLASS_OF = ''SUBCLASS_OF''"
| "rel_value RELATED_TO = ''RELATED_TO''"
| "rel_value SIMILAR_TO = ''SIMILAR_TO''"
| "rel_value OPPOSITE_OF = ''OPPOSITE_OF''"
| "rel_value PRODUCES = ''PRODUCES''"
| "rel_value CONSUMES = ''CONSUMES''"
| "rel_value USES = ''USES''"
| "rel_value REGULATES = ''REGULATES''"
| "rel_value REGULATED_BY = ''REGULATED_BY''"
| "rel_value EXTRACTED_FROM = ''EXTRACTED_FROM''"
| "rel_value LOCATED_IN = ''LOCATED_IN''"
| "rel_value DEPENDS_ON = ''DEPENDS_ON''"
| "rel_value IMPROVES = ''IMPROVES''"
| "rel_value REPLACES = ''REPLACES''"
| "rel_value CONNECTS = ''CONNECTS''"
| "rel_value DEFINED_BY = ''DEFINED_BY''"
| "rel_value REFERENCES = ''REFERENCES''"
| "rel_value SUPERSEDES = ''SUPERSEDES''"
| "rel_value ENFORCED_BY = ''ENFORCED_BY''"

text \<open>
  \<open>self.NAME\<close> inside a method of the enum: the member of that name, or
  \<open>AttributeError\<close> when the enum has no member of that name.
\<close>

definition rel_getattr :: "string \<Rightarrow> error + RelationshipType" where
  "rel_getattr name =
    (case map_of RelationshipType_members name of
       None \<Rightarrow> Inl (AttributeError name)
     | Some m \<Rightarrow> Inr m)"

text \<open>
  \<open>RelationshipType(x)\<close>: lookup by value, \<open>ValueError\<close> when no member has that value.
\<close>

definition RelationshipType_call :: "string \<Rightarrow> error + RelationshipType" where
  "RelationshipType_call v =
    (case map_of RelationshipType_members v of
       None \<Rightarrow> Inl (ValueError v)
     | Some m \<Rightarrow> Inr m)"

definition rel_is_hierarchical :: "RelationshipType \<Rightarrow> bool" where
  "rel_is_hierarchical self \<longleftrightarrow>
     rel_value self \<in> {rel_value IS_A, rel_value PART_OF, rel_value CONTAINS,
                         rel_value SUBCLASS_OF}"

subsection \<open>inverse\_relationship\<close>

text \<open>
  The right-hand sides of the dictionary display \<open>inverse_map\<close>: the literal \<open>None\<close> or
  an attribute access \<open>self.NAME\<close>. The left-hand sides are \<open>self.NAME.value\<close>.
\<close>

datatype inverse_expr = PyNone | SelfAttr string

definition inverse_map_display :: "(string \<times> inverse_expr) list" where
  "inverse_map_display =
    [(''IS_A'', PyNone),
     (''PART_OF'', SelfAttr ''CONTAINS''),
     (''CONTAINS'', SelfAttr ''PART_OF''),
     (''SUBCLASS_OF'', PyNone),
     (''RELATED_TO'', SelfAttr ''RELATED_TO''),
     (''SIMILAR_TO'', SelfAttr ''SIMILAR_TO''),
     (''OPPOSITE_OF'', SelfAttr ''OPPOSITE_OF''),
     (''PRODUCES'', SelfAttr ''PRODUCED_BY''),
     (''CONSUMES'', SelfAttr ''CONSUMED_BY''),
     (''USES'', SelfAttr ''USED_BY''),
     (''REGULATES'', SelfAttr ''REGULATED_BY''),
     (''REGULATED_BY'', SelfAttr ''REGULATES''),
     (''EXTRACTED_FROM'', SelfAttr ''EXTRACTION_SOURCE_FOR''),
     (''LOCATED_IN'', SelfAttr ''LOCATION_OF''),
     (''DEPENDS_ON'', SelfAttr ''DEPENDENCY_FOR''),
     (''IMPROVES'', SelfAttr ''IMPROVED_BY''),
     (''REPLACES'', SelfAttr ''REPLACED_BY''),
     (''CONNECTS'', SelfAttr ''CONNECTS''),
     (''DEFINED_BY'', SelfAttr ''DEFINES''),
     (''REFERENCES'', SelfAttr ''REFERENCED_BY''),
     (''SUPERSEDES'', SelfAttr ''SUPERSEDED_BY''),
     (''ENFORCED_BY'', SelfAttr ''ENFORCES'')]"

text \<open>
  Python evaluates a dictionary display entry by entry, key before value, and the first
  exception aborts the whole display. The accumulator is the dictionary built so far.
\<close>

fun eval_inverse_map ::
  "(string \<times> inverse_expr) list \<Rightarrow> (string \<rightharpoonup> RelationshipType option) \<Rightarrow>
   error + (string \<rightharpoonup> RelationshipType option)" where
  "eval_inverse_map [] d = Inr d"
| "eval_inverse_map ((k, e) # rest) d =
     (case rel_getattr k of
        Inl err \<Rightarrow> Inl err
      | Inr km \<Rightarrow>
          (case e of
             PyNone \<Rightarrow> eval_inverse_map rest (d(rel_value km \<mapsto> None))
           | SelfAttr name \<Rightarrow>
               (case rel_getattr name of
                  Inl err \<Rightarrow> Inl err
                | Inr m \<Rightarrow> eval_inverse_map rest (d(rel_value km \<mapsto> Some m)))))"

text \<open>
  The property itself: build the dictionary, \<open>.get(self.value)\<close>, return \<open>None\<close> when
  the entry is \<open>None\<close> or missing, otherwise \<open>RelationshipType(inverse)\<close> with a
  \<open>ValueError\<close> turned into \<open>None\<close>.
\<close>

definition inverse_relationship :: "RelationshipType \<Rightarrow> error + RelationshipType option" where
  "inverse_relationship self =
    (case eval_inverse_map inverse_map_display Map.empty of
       Inl err \<Rightarrow> Inl err
     | Inr inverse_map \<Rightarrow>
         (case inverse_map (rel_value self) of
            None \<Rightarrow> Inr None
          | Some None \<Rightarrow> Inr None
          | Some (Some inverse_member) \<Rightarrow>
              (case RelationshipType_call (rel_value inverse_member) of
                 Inl (ValueError _) \<Rightarrow> Inr None
               | Inl err \<Rightarrow> Inl err
               | Inr m \<Rightarrow> Inr (Some m))))"

section \<open>Node labels (enums/node\_label.py)\<close>

datatype NodeLabelType =
    ENERGY_TERM | RENEWABLE_SOURCE | FOSSIL_FUEL | TECHNICAL_CONCEPT | REGULATORY_FRAMEWORK
  | TAXONOMY_NODE | CONCEPT | CATEGORY | RELATIONSHIP_NODE

fun label_value :: "NodeLabelType \<Rightarrow> string" where
  "label_value ENERGY_TERM = ''EnergyTerm''"
| "label_value RENEWABLE_SOURCE = ''RenewableSource''"
| "label_value FOSSIL_FUEL = ''FossilFuel''"
| "label_value TECHNICAL_CONCEPT = ''TechnicalConcept''"
| "label_value REGULATORY_FRAMEWORK = ''RegulatoryFramework''"
| "label_value TAXONOMY_NODE = ''TaxonomyNode''"
| "label_value CONCEPT = ''Concept''"
| "label_value CATEGORY = ''Category''"
| "label_value RELATIONSHIP_NODE = ''RelationshipNode''"

definition base_properties :: "string set" where
  "base_properties = {''name'', ''created_at'', ''updated_at''}"

text \<open>The per-label extension table, keyed by the label's value as in the source.\<close>

definition label_properties :: "(string \<times> string set) list" where
  "label_properties =
    [(label_value ENERGY_TERM, {''definition'', ''fuel_group''}),
     (label_value RENEWABLE_SOURCE, {''capacity'', ''technology_type''}),
     (label_value FOSSIL_FUEL, {''carbon_intensity'', ''extraction_method''}),
     (label_value TECHNICAL_CONCEPT, {''description'', ''maturity_level''}),
     (label_value REGULATORY_FRAMEWORK, {''jurisdiction'', ''effective_date'', ''regulatory_body''}),
     (label_value TAXONOMY_NODE, {''definition''}),
     (label_value CONCEPT, {''definition''}),
     (label_value CATEGORY, {''description''}),
     (label_value RELATIONSHIP_NODE, {''relationship_type''})]"

text \<open>\<open>NodeLabelType.required_properties\<close>: the base set united with \<open>label_properties.get(self.value, set())\<close>.\<close>

definition label_required_properties :: "NodeLabelType \<Rightarrow> string set" where
  "label_required_properties self =
     base_properties \<union>
       (case map_of label_properties (label_value self) of None \<Rightarrow> {} | Some ps \<Rightarrow> ps)"

section \<open>Validation statuses (enums/validation.py)\<close>

datatype ValidationStatusType =
    UNVALIDATED | VALIDATED | NEEDS_REVIEW | REJECTED | PENDING
  | AUTOMATED_VALIDATED | EXPERT_VALIDATED | COMMUNITY_VALIDATED

fun status_value :: "ValidationStatusType \<Rightarrow> string" where
  "status_value UNVALIDATED = ''unvalidated''"
| "status_value VALIDATED = ''validated''"
| "status_value NEEDS_REVIEW = ''needs_review''"
| "status_value REJECTED = ''rejected''"
| "status_value PENDING = ''pending''"
| "status_value AUTOMATED_VALIDATED = ''automated_validated''"
| "status_value EXPERT_VALIDATED = ''expert_validated''"
| "status_value COMMUNITY_VALIDATED = ''community_validated''"

definition status_is_valid :: "ValidationStatusType \<Rightarrow> bool" where
  "status_is_valid self \<longleftrightarrow>
     status_value self \<in> {status_value VALIDATED, status_value AUTOMATED_VALIDATED,
                            status_value EXPERT_VALIDATED, status_value COMMUNITY_VALIDATED}"

definition transitions :: "(string \<times> ValidationStatusType set) list" where
  "transitions =
    [(status_value UNVALIDATED, {PENDING, AUTOMATED_VALIDATED, NEEDS_REVIEW, REJECTED}),
     (status_value VALIDATED, {NEEDS_REVIEW, REJECTED}),
     (status_value NEEDS_REVIEW, {VALIDATED, EXPERT_VALIDATED, COMMUNITY_VALIDATED, REJECTED}),
     (status_value REJECTED, {NEEDS_REVIEW, PENDING}),
     (status_value PENDING, {VALIDATED, NEEDS_REVIEW, REJECTED, AUTOMATED_VALIDATED}),
     (status_value AUTOMATED_VALIDATED,
        {EXPERT_VALIDATED, COMMUNITY_VALIDATED, NEEDS_REVIEW, REJECTED}),
     (status_value EXPERT_VALIDATED, {NEEDS_REVIEW, REJECTED}),
     (status_value COMMUNITY_VALIDATED, {EXPERT_VALIDATED, NEEDS_REVIEW, REJECTED})]"

text \<open>\<open>ValidationStatusType.allowed_transitions\<close>: \<open>transitions.get(self.value, set())\<close>.\<close>

definition allowed_transitions :: "ValidationStatusType \<Rightarrow> ValidationStatusType set" where
  "allowed_transitions self =
     (case map_of transitions (status_value self) of None \<Rightarrow> {} | Some ts \<Rightarrow> ts)"

section \<open>Nodes (core/node.py) and the cached-property descriptor\<close>

text \<open>
  Property values are arbitrary Python objects; the model keeps a few kinds of them.
  Instants (\<open>datetime.now()\<close>, \<open>time.time()\<close>) are real numbers handed in by the caller:
  the model never reads a clock itself.
\<close>

datatype pyval = PStr string | PInt int | PFloat real | PBool bool | PNone

text \<open>An entry of \<open>instance._cached_properties\<close>: \<open>{"value": ..., "timestamp": ...}\<close>.\<close>

record cache_entry =
  entry_value :: "string set"
  entry_timestamp :: real

text \<open>
  The node. \<open>properties\<close> is a Python dict, kept as an association list in insertion
  order. \<open>cached_properties\<close> is the attribute \<open>_cached_properties\<close>, \<open>None\<close> while the
  attribute has not been created.
\<close>

record ATLASNode =
  node_id :: string
  labels :: "NodeLabelType list"
  properties :: "(string \<times> pyval) list"
  created_at :: real
  updated_at :: real
  validation_status :: ValidationStatusType
  cached_properties :: "(string \<rightharpoonup> cache_entry) option"

text \<open>
  The constructor with the model validator \<open>validate_labels\<close>: a node without labels is
  refused. The labels are given as enum members; \<open>created_at\<close> and \<open>updated_at\<close> default to
  two clock readings and the status to \<open>UNVALIDATED\<close>.
\<close>

definition ATLASNode_init ::
  "string \<Rightarrow> NodeLabelType list \<Rightarrow> (string \<times> pyval) list \<Rightarrow> real \<Rightarrow> real \<Rightarrow> error + ATLASNode" where
  "ATLASNode_init i ls ps now1 now2 =
     (if ls = [] then Inl (ValidationError ''Node must have at least one label'')
      else Inr \<lparr>node_id = i, labels = ls, properties = ps, created_at = now1,
                updated_at = now2, validation_status = UNVALIDATED,
                cached_properties = None\<rparr>)"

definition cache_of :: "ATLASNode \<Rightarrow> (string \<rightharpoonup> cache_entry)" where
  "cache_of instance = (case cached_properties instance of None \<Rightarrow> Map.empty | Some c \<Rightarrow> c)"

text \<open>
  \<open>CachedProperty.__get__\<close> on an instance, for a descriptor with time-to-live \<open>ttl\<close>
  (\<open>None\<close>: no expiration), name \<open>name\<close> and wrapped function \<open>func\<close>; \<open>now\<close> is the
  reading of \<open>time.time()\<close>. The wrapped function may itself read cached properties of the
  same instance, so it returns the instance as well; the entry is written into the
  dictionary as the function left it.
\<close>

definition CachedProperty_get ::
  "real option \<Rightarrow> string \<Rightarrow> (ATLASNode \<Rightarrow> string set \<times> ATLASNode) \<Rightarrow> real \<Rightarrow> ATLASNode \<Rightarrow>
   string set \<times> ATLASNode" where
  "CachedProperty_get ttl name func now instance =
     (let inst1 = (case cached_properties instance of
                     None \<Rightarrow> instance\<lparr>cached_properties := Some Map.empty\<rparr>
                   | Some _ \<Rightarrow> instance);
          compute = (case func inst1 of
                       (v, inst2) \<Rightarrow>
                         (v, inst2\<lparr>cached_properties :=
                                Some ((cache_of inst2)
                                  (name \<mapsto> \<lparr>entry_value = v, entry_timestamp = now\<rparr>))\<rparr>))
      in case cache_of inst1 name of
           None \<Rightarrow> compute
         | Some entry \<Rightarrow>
             (case ttl of
                None \<Rightarrow> (entry_value entry, inst1)
              | Some t \<Rightarrow>
                  if now - entry_timestamp entry < t then (entry_value entry, inst1)
                  else compute))"

text \<open>
  The decorator \<open>cached_property\<close> of node.py (imported from \<open>atlas.decorators\<close>) is the
  descriptor above built with its default arguments: no time-to-live, and the name of the
  decorated function.
\<close>

definition cached_property ::
  "string \<Rightarrow> (ATLASNode \<Rightarrow> string set \<times> ATLASNode) \<Rightarrow> real \<Rightarrow> ATLASNode \<Rightarrow> string set \<times> ATLASNode" where
  "cached_property name func = CachedProperty_get None name func"

text \<open>The body of \<open>required_properties\<close>: the loop over the labels updating a set.\<close>

definition required_properties_func :: "ATLASNode \<Rightarrow> string set \<times> ATLASNode" where
  "required_properties_func self =
     (foldl (\<lambda>required label. required \<union> label_required_properties label) {} (labels self),
      self)"

definition required_properties :: "real \<Rightarrow> ATLASNode \<Rightarrow> string set \<times> ATLASNode" where
  "required_properties = cached_property ''required_properties'' required_properties_func"

text \<open>The body of \<open>missing_properties\<close> reads the cached \<open>required_properties\<close>.\<close>

definition missing_properties_func :: "real \<Rightarrow> ATLASNode \<Rightarrow> string set \<times> ATLASNode" where
  "missing_properties_func now self =
     (case required_properties now self of
        (required, self1) \<Rightarrow> (required - set (map fst (properties self1)), self1))"

definition missing_properties :: "real \<Rightarrow> ATLASNode \<Rightarrow> string set \<times> ATLASNode" where
  "missing_properties now =
     cached_property ''missing_properties'' (missing_properties_func now) now"

text \<open>
  The body of \<open>validate\<close>: \<open>False\<close> when a required property is missing; otherwise the
  loop over the items reads \<open>required_properties\<close> once per item and does nothing else.
\<close>

definition validate_func :: "real \<Rightarrow> ATLASNode \<Rightarrow> (error + bool) \<times> ATLASNode" where
  "validate_func now self =
     (case missing_properties now self of
        (missing, self1) \<Rightarrow>
          if missing \<noteq> {} then (Inr False, self1)
          else (Inr True,
                foldl (\<lambda>s item. snd (required_properties now s)) self1 (properties self1)))"

text \<open>
  The body of \<open>update\<close>: \<open>self.properties.update(properties)\<close> assigns the given items in
  order, then \<open>updated_at\<close> is set to the clock reading.
\<close>

definition dict_update :: "(string \<times> 'v) list \<Rightarrow> (string \<times> 'v) list \<Rightarrow> (string \<times> 'v) list" where
  "dict_update d other = foldl (\<lambda>acc (k, v). AList.update k v acc) d other"

definition update_func ::
  "(string \<times> pyval) list \<Rightarrow> real \<Rightarrow> ATLASNode \<Rightarrow> (error + ATLASNode) \<times> ATLASNode" where
  "update_func props now self =
     (let self1 = self\<lparr>properties := dict_update (properties self) props\<rparr>;
          self2 = self1\<lparr>updated_at := now\<rparr>
      in (Inr self2, self2))"

section \<open>The operation wrapper (decorators/atlas\_operation.py)\<close>

text \<open>
  The arguments of the decorator. \<open>retry_delay\<close> and \<open>log_level\<close> only steer sleeping and
  logging, which leave the modelled state alone, and are left out.
\<close>

record op_config =
  operation_type :: string
  requires_validation :: bool
  retry_attempts :: int
  cache_result :: bool

text \<open>
  What the wrapper sees of one call. \<open>has_instance\<close>: the call has positional arguments,
  so \<open>instance = args[0]\<close> is not \<open>None\<close>. \<open>instance_validate\<close>: the instance's
  \<open>validate\<close> method when it has one. \<open>args_repr\<close> and \<open>kwargs_repr\<close>: the arguments as
  the f-string of the cache key prints them. The instance is an object that accepts new
  attributes, as the classes decorated in the repository are.
\<close>

record 's call =
  has_instance :: bool
  instance_validate :: "('s \<Rightarrow> (error + bool) \<times> 's) option"
  args_repr :: string
  kwargs_repr :: string

text \<open>
  The state a wrapped call runs in: \<open>target\<close> is everything the wrapped function and
  \<open>validate\<close> can read and change, \<open>operation_cache\<close> is the instance's attribute
  \<open>_operation_cache\<close> (\<open>None\<close> while the attribute does not exist).
\<close>

record ('s, 'a) world =
  target :: 's
  operation_cache :: "(string \<rightharpoonup> 'a) option"

definition cache_key :: "string \<Rightarrow> 's call \<Rightarrow> string" where
  "cache_key fname c = fname @ ''_'' @ args_repr c @ ''_'' @ kwargs_repr c"

text \<open>The lookup at the start of the wrapper; \<open>None\<close> when the call goes on.\<close>

definition cache_lookup :: "op_config \<Rightarrow> string \<Rightarrow> 's call \<Rightarrow> ('s, 'a) world \<Rightarrow> 'a option" where
  "cache_lookup cfg fname c w =
     (if cache_result cfg \<and> has_instance c then
        (case operation_cache w of
           None \<Rightarrow> None
         | Some m \<Rightarrow> m (cache_key fname c))
      else None)"

text \<open>The validation gate: it raises \<open>ValueError\<close> when \<open>validate()\<close> is false.\<close>

definition validation_gate ::
  "op_config \<Rightarrow> 's call \<Rightarrow> ('s, 'a) world \<Rightarrow> (error + unit) \<times> ('s, 'a) world" where
  "validation_gate cfg c w =
     (if requires_validation cfg \<and> has_instance c then
        (case instance_validate c of
           None \<Rightarrow> (Inr (), w)
         | Some validate \<Rightarrow>
             (case validate (target w) of
                (Inl e, s') \<Rightarrow> (Inl e, w\<lparr>target := s'\<rparr>)
              | (Inr validation_result, s') \<Rightarrow>
                  if \<not> validation_result then
                    (Inl (ValueError (''Validation failed for '' @ operation_type cfg @ '' operation'')),
                     w\<lparr>target := s'\<rparr>)
                  else (Inr (), w\<lparr>target := s'\<rparr>)))
      else (Inr (), w))"

text \<open>Storing a result after a successful attempt.\<close>

definition cache_store :: "op_config \<Rightarrow> string \<Rightarrow> 's call \<Rightarrow> 'a \<Rightarrow> ('s, 'a) world \<Rightarrow> ('s, 'a) world" where
  "cache_store cfg fname c result w =
     (if cache_result cfg \<and> has_instance c then
        w\<lparr>operation_cache :=
             Some ((case operation_cache w of None \<Rightarrow> Map.empty | Some m \<Rightarrow> m)
                     (cache_key fname c \<mapsto> result))\<rparr>
      else w)"

text \<open>
  The \<open>while attempt <= retry_attempts\<close> loop with its two variables. After the loop the
  source asserts that an error was seen and raises it.
\<close>

function retry_loop ::
  "op_config \<Rightarrow> string \<Rightarrow> ('s \<Rightarrow> (error + 'a) \<times> 's) \<Rightarrow> 's call \<Rightarrow> int \<Rightarrow> error option \<Rightarrow>
   ('s, 'a) world \<Rightarrow> (error + 'a) \<times> ('s, 'a) world" where
  "retry_loop cfg fname func c attempt last_error w =
     (if attempt \<le> retry_attempts cfg then
        (case func (target w) of
           (Inr result, s') \<Rightarrow> (Inr result, cache_store cfg fname c result (w\<lparr>target := s'\<rparr>))
         | (Inl e, s') \<Rightarrow>
             if attempt + 1 \<le> retry_attempts cfg
             then retry_loop cfg fname func c (attempt + 1) (Some e) (w\<lparr>target := s'\<rparr>)
             else (Inl e, w\<lparr>target := s'\<rparr>))
      else (case last_error of
              None \<Rightarrow> (Inl AssertionError, w)
            | Some e \<Rightarrow> (Inl e, w)))"
  by pat_completeness auto
termination
  by (relation "measure (\<lambda>(cfg, fname, func, c, attempt, last_error, w).
                   nat (retry_attempts cfg + 1 - attempt))") auto

text \<open>The wrapper: cache lookup, validation gate, retry loop.\<close>

definition atlas_operation ::
  "op_config \<Rightarrow> string \<Rightarrow> ('s \<Rightarrow> (error + 'a) \<times> 's) \<Rightarrow> 's call \<Rightarrow> ('s, 'a) world \<Rightarrow>
   (error + 'a) \<times> ('s, 'a) world" where
  "atlas_operation cfg fname func c w =
     (case cache_lookup cfg fname c w of
        Some cached \<Rightarrow> (Inr cached, w)
      | None \<Rightarrow>
          (case validation_gate cfg c w of
             (Inl e, w1) \<Rightarrow> (Inl e, w1)
           | (Inr _, w1) \<Rightarrow> retry_loop cfg fname func c 0 None w1))"

text \<open>A wrapped function that also counts how often it is invoked.\<close>

definition counting :: "('s \<Rightarrow> 'r \<times> 's) \<Rightarrow> (nat \<times> 's \<Rightarrow> 'r \<times> (nat \<times> 's))" where
  "counting func = (\<lambda>(n, s). case func s of (r, s') \<Rightarrow> (r, (Suc n, s')))"

subsection \<open>The decorated methods of the node\<close>

text \<open>
  A node has no \<open>_operation_cache\<close>: none of its methods asks for caching. Both
  methods are called as \<open>node.method(...)\<close>, so the instance is the node.
\<close>

definition ATLASNode_validate :: "real \<Rightarrow> ATLASNode \<Rightarrow> (error + bool) \<times> ATLASNode" where
  "ATLASNode_validate now self =
     (case atlas_operation
             \<lparr>operation_type = ''validation'', requires_validation = False,
              retry_attempts = 0, cache_result = False\<rparr>
             ''validate'' (validate_func now)
             \<lparr>has_instance = True, instance_validate = None,
              args_repr = [], kwargs_repr = []\<rparr>
             \<lparr>target = self, operation_cache = None\<rparr> of
        (r, w) \<Rightarrow> (r, target w))"

definition ATLASNode_update ::
  "(string \<times> pyval) list \<Rightarrow> real \<Rightarrow> ATLASNode \<Rightarrow> (error + ATLASNode) \<times> ATLASNode" where
  "ATLASNode_update props now self =
     (case atlas_operation
             \<lparr>operation_type = ''update'', requires_validation = True,
              retry_attempts = 0, cache_result = False\<rparr>
             ''update'' (update_func props now)
             \<lparr>has_instance = True, instance_validate = Some (ATLASNode_validate now),
              args_repr = [], kwargs_repr = []\<rparr>
             \<lparr>target = self, operation_cache = None\<rparr> of
        (r, w) \<Rightarrow> (r, target w))"

section \<open>Relationships and the graph adapter\<close>

text \<open>
  Modelled from the spec: the class \<open>ATLASRelationship\<close> is imported from
  core/relationship.py, which holds the enum instead; the sources read its fields \<open>id\<close>,
  \<open>type\<close>, \<open>start_node_id\<close>, \<open>end_node_id\<close> and its property \<open>is_hierarchical\<close>.
  The spec gives a relationship an identifier, a type variant, a source and a target node
  id, and restricts the adjacency to "relationships whose type is hierarchical".
\<close>

record ATLASRelationship =
  rel_id :: string
  rel_type :: RelationshipType
  start_node_id :: string
  end_node_id :: string

definition is_hierarchical :: "ATLASRelationship \<Rightarrow> bool" where
  "is_hierarchical rel = rel_is_hierarchical (rel_type rel)"

text \<open>
  Modelled from the spec: the graph adapter is an external collaborator, known by its
  interface only. \<open>get_node\<close> and \<open>update_node\<close> read and write a store of nodes by id;
  \<open>find_nodes\<close> answers a property filter and \<open>find_relationships\<close> a start-node or
  end-node filter (the other filters are \<open>None\<close> and the limit is the default in every
  call modelled here) with a list.
\<close>

record graph_adapter =
  stored_nodes :: "string \<rightharpoonup> ATLASNode"
  find_nodes_result :: "(string \<times> pyval) list \<Rightarrow> ATLASNode list"
  find_relationships_result :: "string option \<Rightarrow> string option \<Rightarrow> ATLASRelationship list"

section \<open>The client (core/client.py)\<close>

text \<open>The client's state, as far as these methods go, is its graph adapter, if any.\<close>

type_synonym ATLASClient = "graph_adapter option"

definition default_config :: "string \<Rightarrow> op_config" where
  "default_config ty =
     \<lparr>operation_type = ty, requires_validation = False, retry_attempts = 0,
      cache_result = False\<rparr>"

definition method_call :: "'s call" where
  "method_call = \<lparr>has_instance = True, instance_validate = None, args_repr = [], kwargs_repr = []\<rparr>"

definition find_nodes :: "ATLASClient \<Rightarrow> (string \<times> pyval) list \<Rightarrow> ATLASNode list" where
  "find_nodes client props =
     (case client of None \<Rightarrow> [] | Some adapter \<Rightarrow> find_nodes_result adapter props)"

definition find_relationships ::
  "ATLASClient \<Rightarrow> string option \<Rightarrow> string option \<Rightarrow> ATLASRelationship list" where
  "find_relationships client start_id end_id =
     (case client of
        None \<Rightarrow> []
      | Some adapter \<Rightarrow> find_relationships_result adapter start_id end_id)"

text \<open>
  The body of \<open>validate_node\<close>. The status is assigned directly; the adapter then
  stores the node.
\<close>

definition validate_node_func ::
  "string \<Rightarrow> real \<Rightarrow> ATLASClient \<Rightarrow> (error + bool) \<times> ATLASClient" where
  "validate_node_func nid now client =
     (case client of
        None \<Rightarrow> (Inr False, client)
      | Some adapter \<Rightarrow>
          (case stored_nodes adapter nid of
             None \<Rightarrow> (Inr False, client)
           | Some node \<Rightarrow>
               (case ATLASNode_validate now node of
                  (Inl e, node1) \<Rightarrow> (Inl e, client)
                | (Inr is_valid, node1) \<Rightarrow>
                    (let node2 = node1\<lparr>validation_status :=
                                        (if is_valid then VALIDATED else NEEDS_REVIEW)\<rparr>
                     in (Inr is_valid,
                         Some (adapter\<lparr>stored_nodes :=
                                  (stored_nodes adapter)(node_id node2 \<mapsto> node2)\<rparr>))))))"

definition validate_node :: "string \<Rightarrow> real \<Rightarrow> ATLASClient \<Rightarrow> (error + bool) \<times> ATLASClient" where
  "validate_node nid now client =
     (case atlas_operation (default_config ''validation'') ''validate_node''
             (validate_node_func nid now) method_call
             \<lparr>target = client, operation_cache = None\<rparr> of
        (r, w) \<Rightarrow> (r, target w))"

section \<open>The taxonomy analyzer (core/taxonomy.py)\<close>

type_synonym adjacency = "string \<rightharpoonup> string list"

text \<open>The first loop: an empty child list for every node.\<close>

definition init_adjacency :: "ATLASNode list \<Rightarrow> adjacency" where
  "init_adjacency nodes = foldl (\<lambda>adj node. adj(node_id node \<mapsto> [])) Map.empty nodes"

text \<open>
  The second loop: \<open>adjacency[rel.start_node_id].append(rel.end_node_id)\<close> for the
  hierarchical relationships; the subscript raises \<open>KeyError\<close> on an unknown start node.
\<close>

fun add_edges :: "ATLASRelationship list \<Rightarrow> adjacency \<Rightarrow> error + adjacency" where
  "add_edges [] adj = Inr adj"
| "add_edges (rel # rels) adj =
     (if is_hierarchical rel then
        (case adj (start_node_id rel) of
           None \<Rightarrow> Inl (KeyError (start_node_id rel))
         | Some children \<Rightarrow>
             add_edges rels (adj(start_node_id rel \<mapsto> children @ [end_node_id rel])))
      else add_edges rels adj)"

text \<open>
  The recursive \<open>dfs\<close> with its two non-local variables, the visited set and the maximum
  depth, passed as a pair. The first argument bounds the depth of the recursion: \<open>None\<close>
  is a traversal the bound cut off. \<open>dfs_children\<close> is the loop over the children.
\<close>

fun dfs :: "nat \<Rightarrow> adjacency \<Rightarrow> string \<Rightarrow> int \<Rightarrow> string set \<times> int \<Rightarrow> (string set \<times> int) option"
  and dfs_children ::
    "nat \<Rightarrow> adjacency \<Rightarrow> string list \<Rightarrow> int \<Rightarrow> string set \<times> int \<Rightarrow> (string set \<times> int) option" where
  "dfs 0 adj nid depth st = None"
| "dfs (Suc fuel) adj nid depth (visited, max_depth) =
     dfs_children fuel adj (case adj nid of None \<Rightarrow> [] | Some children \<Rightarrow> children) depth
       (insert nid visited, if depth > max_depth then depth else max_depth)"
| "dfs_children fuel adj [] depth st = Some st"
| "dfs_children fuel adj (child_id # rest) depth (visited, max_depth) =
     (if child_id \<notin> visited then
        (case dfs fuel adj child_id (depth + 1) (visited, max_depth) of
           None \<Rightarrow> None
         | Some st' \<Rightarrow> dfs_children fuel adj rest depth st')
      else dfs_children fuel adj rest depth (visited, max_depth))"

text \<open>The last loop: a traversal from every node not visited yet.\<close>

fun dfs_starts ::
  "nat \<Rightarrow> adjacency \<Rightarrow> ATLASNode list \<Rightarrow> string set \<times> int \<Rightarrow> (string set \<times> int) option" where
  "dfs_starts fuel adj [] st = Some st"
| "dfs_starts fuel adj (node # rest) (visited, max_depth) =
     (if node_id node \<notin> visited then
        (case dfs fuel adj (node_id node) 0 (visited, max_depth) of
           None \<Rightarrow> None
         | Some st' \<Rightarrow> dfs_starts fuel adj rest st')
      else dfs_starts fuel adj rest (visited, max_depth))"

definition calculate_hierarchical_depth ::
  "nat \<Rightarrow> ATLASNode list \<Rightarrow> ATLASRelationship list \<Rightarrow> (error + int) option" where
  "calculate_hierarchical_depth fuel nodes relationships =
     (case add_edges relationships (init_adjacency nodes) of
        Inl e \<Rightarrow> Some (Inl e)
      | Inr adj \<Rightarrow>
          (case dfs_starts fuel adj nodes ({}, 0) of
             None \<Rightarrow> None
           | Some (visited, max_depth) \<Rightarrow> Some (Inr max_depth)))"

definition count_node_labels :: "ATLASNode list \<Rightarrow> (string \<rightharpoonup> int)" where
  "count_node_labels nodes =
     foldl (\<lambda>label_counts node.
              foldl (\<lambda>counts label.
                       counts(label_value label \<mapsto>
                         (case counts (label_value label) of None \<Rightarrow> 0 | Some k \<Rightarrow> k) + 1))
                    label_counts (labels node))
           Map.empty nodes"

definition count_relationship_types :: "ATLASRelationship list \<Rightarrow> (string \<rightharpoonup> int)" where
  "count_relationship_types relationships =
     foldl (\<lambda>type_counts rel.
              type_counts(rel_value (rel_type rel) \<mapsto>
                (case type_counts (rel_value (rel_type rel)) of None \<Rightarrow> 0 | Some k \<Rightarrow> k) + 1))
           Map.empty relationships"

text \<open>The quotient is a Python float; the model keeps the exact quotient.\<close>

definition calculate_connectivity :: "ATLASNode list \<Rightarrow> ATLASRelationship list \<Rightarrow> real" where
  "calculate_connectivity nodes relationships =
     (if length nodes \<le> 1 then 0
      else let max_relationships = int (length nodes) * (int (length nodes) - 1)
           in if max_relationships = 0 then 0
              else real (length relationships) / real_of_int max_relationships)"

text \<open>
  \<open>{rel.id: rel for rel in relationships}.values()\<close>: one relationship per id, at the
  position of the id's first occurrence, the last one with that id winning.
\<close>

definition unique_by_id :: "ATLASRelationship list \<Rightarrow> ATLASRelationship list" where
  "unique_by_id relationships =
     map snd (foldl (\<lambda>d rel. AList.update (rel_id rel) rel d) [] relationships)"

text \<open>The relationships gathered for the nodes: outgoing, then incoming, node by node.\<close>

definition gather_relationships :: "ATLASClient \<Rightarrow> ATLASNode list \<Rightarrow> ATLASRelationship list" where
  "gather_relationships client nodes =
     concat (map (\<lambda>node. find_relationships client (Some (node_id node)) None @
                          find_relationships client None (Some (node_id node))) nodes)"

datatype analysis_value =
    StrValue string
  | IntValue int
  | FloatValue real
  | CountsValue "string \<rightharpoonup> int"

text \<open>
  The body of \<open>analyze_taxonomy\<close>. \<open>None\<close>: the bound on the traversal was too small.
\<close>

definition analyze_taxonomy_func ::
  "nat \<Rightarrow> string \<Rightarrow> ATLASClient \<Rightarrow> (error + (string \<rightharpoonup> analysis_value)) option" where
  "analyze_taxonomy_func fuel domain client =
     (case client of
        None \<Rightarrow> Some (Inr Map.empty)
      | Some adapter \<Rightarrow>
          (let nodes = find_nodes client [(''domain'', PStr domain)];
               relationships = gather_relationships client nodes;
               unique_relationships = unique_by_id relationships
           in case calculate_hierarchical_depth fuel nodes unique_relationships of
                None \<Rightarrow> None
              | Some (Inl e) \<Rightarrow> Some (Inl e)
              | Some (Inr depth) \<Rightarrow>
                  Some (Inr (Map.empty
                    (''domain'' \<mapsto> StrValue domain,
                     ''node_count'' \<mapsto> IntValue (int (length nodes)),
                     ''relationship_count'' \<mapsto> IntValue (int (length unique_relationships)),
                     ''node_label_distribution'' \<mapsto> CountsValue (count_node_labels nodes),
                     ''relationship_type_distribution'' \<mapsto>
                        CountsValue (count_relationship_types unique_relationships),
                     ''connectivity'' \<mapsto>
                        FloatValue (calculate_connectivity nodes unique_relationships),
                     ''hierarchical_depth'' \<mapsto> IntValue depth)))))"

text \<open>
  The decorated method. The extractor has no \<open>fabric_registry\<close> attribute, so the inner
  decorator \<open>fabric_pattern\<close> calls the function and returns its result; the outer one is
  the operation wrapper with its default arguments. The analysis changes no state.
\<close>

definition analyze_taxonomy ::
  "nat \<Rightarrow> string \<Rightarrow> ATLASClient \<Rightarrow> (error + (string \<rightharpoonup> analysis_value)) option" where
  "analyze_taxonomy fuel domain client =
     (case analyze_taxonomy_func fuel domain client of
        None \<Rightarrow> None
      | Some r \<Rightarrow>
          Some (fst (atlas_operation (default_config ''analysis'') ''analyze_taxonomy''
                       (\<lambda>s. (r, s)) method_call
                       \<lparr>target = client, operation_cache = None\<rparr>)))"

section \<open>Notions used in the statements\<close>

text \<open>
  The state after \<open>k\<close> invocations of an operation body, and the body raising on each of
  its first \<open>k\<close> invocations.
\<close>

fun run_attempts :: "('s \<Rightarrow> (error + 'a) \<times> 's) \<Rightarrow> nat \<Rightarrow> 's \<Rightarrow> 's" where
  "run_attempts func 0 s = s"
| "run_attempts func (Suc k) s = run_attempts func k (snd (func s))"

fun raises_times :: "('s \<Rightarrow> (error + 'a) \<times> 's) \<Rightarrow> nat \<Rightarrow> 's \<Rightarrow> bool" where
  "raises_times func 0 s = True"
| "raises_times func (Suc k) s =
     (case func s of (Inl e, s') \<Rightarrow> raises_times func k s' | (Inr v, s') \<Rightarrow> False)"

text \<open>A sequence of wrapped calls on one instance, each with its own decorator arguments.\<close>

fun run_ops ::
  "(op_config \<times> string \<times> ('s \<Rightarrow> (error + 'a) \<times> 's) \<times> 's call) list \<Rightarrow> ('s, 'a) world \<Rightarrow>
   ('s, 'a) world" where
  "run_ops [] w = w"
| "run_ops ((cfg, fname, func, c) # rest) w =
     run_ops rest (snd (atlas_operation cfg fname func c w))"

text \<open>
  The union of the labels' required properties, the keys of the property map, and what
  it means for the entries of a node's property cache to agree with them.
\<close>

definition req_of :: "ATLASNode \<Rightarrow> string set" where
  "req_of n = (\<Union>l\<in>set (labels n). label_required_properties l)"

definition keys_of :: "ATLASNode \<Rightarrow> string set" where
  "keys_of n = set (map fst (properties n))"

definition cache_ok :: "ATLASNode \<Rightarrow> bool" where
  "cache_ok n \<longleftrightarrow>
     (case cache_of n ''required_properties'' of
        None \<Rightarrow> True | Some e \<Rightarrow> entry_value e = req_of n) \<and>
     (case cache_of n ''missing_properties'' of
        None \<Rightarrow> True | Some e \<Rightarrow> entry_value e = req_of n - keys_of n)"

text \<open>Two nodes that differ in the property cache at most.\<close>

definition same_fields :: "ATLASNode \<Rightarrow> ATLASNode \<Rightarrow> bool" where
  "same_fields n n' \<longleftrightarrow> n' = n\<lparr>cached_properties := cached_properties n'\<rparr>"

text \<open>
  An operation body for the retry scenario: it raises on its first two invocations and
  returns \<open>"ok"\<close> afterwards; its state is the number of invocations so far.
\<close>

definition flaky :: "nat \<Rightarrow> (error + string) \<times> nat" where
  "flaky s = (if s < 2 then (Inl (Exception ''attempt failed''), Suc s) else (Inr ''ok'', Suc s))"

definition retry_config :: "int \<Rightarrow> op_config" where
  "retry_config n =
     \<lparr>operation_type = ''operation'', requires_validation = False, retry_attempts = n,
      cache_result = False\<rparr>"

text \<open>The entry of the instance's \<open>_operation_cache\<close> under a key, if any.\<close>

definition cached_result :: "('s, 'a) world \<Rightarrow> string \<Rightarrow> 'a option" where
  "cached_result w key = (case operation_cache w of None \<Rightarrow> None | Some m \<Rightarrow> m key)"

text \<open>
  A wrapped operation for the cache scenario: caching switched on, a body that returns its
  value and changes nothing, and calls told apart by their printed arguments.
\<close>

definition caching_config :: op_config where
  "caching_config =
     \<lparr>operation_type = ''query'', requires_validation = False, retry_attempts = 0,
      cache_result = True\<rparr>"

definition echo :: "string \<Rightarrow> unit \<Rightarrow> (error + string) \<times> unit" where
  "echo x s = (Inr x, s)"

definition call_with :: "string \<Rightarrow> 's call" where
  "call_with a = \<lparr>has_instance = True, instance_validate = None, args_repr = a, kwargs_repr = ''{}''\<rparr>"

text \<open>
  The nodes the program builds when it follows the data model: made by the constructor,
  then changed through \<open>update\<close>, validation, status assignments and reads of the two
  cached properties only.
\<close>

inductive reachable :: "ATLASNode \<Rightarrow> bool" where
  created: "ATLASNode_init i ls ps now1 now2 = Inr n \<Longrightarrow> reachable n"
| validated: "reachable n \<Longrightarrow> reachable (snd (ATLASNode_validate now n))"
| updated: "reachable n \<Longrightarrow> reachable (snd (ATLASNode_update props now n))"
| status_set: "reachable n \<Longrightarrow> reachable (n\<lparr>validation_status := s\<rparr>)"
| read_required: "reachable n \<Longrightarrow> reachable (snd (required_properties now n))"
| read_missing: "reachable n \<Longrightarrow> reachable (snd (missing_properties now n))"

text \<open>
  The scenario node: label \<open>ENERGY_TERM\<close>, properties \<open>name\<close>, \<open>created_at\<close> and
  \<open>updated_at\<close> only; and the two properties it lacks.
\<close>

definition solar_properties :: "(string \<times> pyval) list" where
  "solar_properties =
     [(''name'', PStr ''Solar''), (''created_at'', PFloat 0), (''updated_at'', PFloat 0)]"

definition solar :: ATLASNode where
  "solar =
     \<lparr>node_id = ''solar'', labels = [ENERGY_TERM], properties = solar_properties,
      created_at = 0, updated_at = 0, validation_status = UNVALIDATED,
      cached_properties = None\<rparr>"

definition solar_additions :: "(string \<times> pyval) list" where
  "solar_additions = [(''definition'', PStr ''Energy from sunlight''), (''fuel_group'', PStr ''renewable'')]"

text \<open>A node that has every property its label requires.\<close>

definition concept_node :: ATLASNode where
  "concept_node =
     \<lparr>node_id = ''concept'', labels = [CONCEPT],
      properties = [(''name'', PStr ''Grid''), (''created_at'', PFloat 0),
                    (''updated_at'', PFloat 0), (''definition'', PStr ''A network'')],
      created_at = 0, updated_at = 0, validation_status = UNVALIDATED,
      cached_properties = None\<rparr>"

text \<open>A graph adapter that stores the node \<open>concept_node\<close> and answers no query.\<close>

definition concept_store :: graph_adapter where
  "concept_store =
     \<lparr>stored_nodes = [''concept'' \<mapsto> concept_node],
      find_nodes_result = (\<lambda>props. []),
      find_relationships_result = (\<lambda>start_id end_id. [])\<rparr>"

text \<open>The adjacency the first two loops build when no start node is unknown.\<close>

definition adjacency_of :: "ATLASNode list \<Rightarrow> ATLASRelationship list \<Rightarrow> adjacency" where
  "adjacency_of nodes relationships =
     (\<lambda>x. if x \<in> set (map node_id nodes)
          then Some (map end_node_id
                  (filter (\<lambda>rel. is_hierarchical rel \<and> start_node_id rel = x) relationships))
          else None)"

text \<open>
  A linear chain: the node ids \<open>vs\<close> in chain order, root first, and one hierarchical
  relationship from each node to the next, in the same order. \<open>chain_adjacency\<close> says that
  an adjacency maps each node of the chain to its successor alone, and the last to nothing.
\<close>

fun is_chain :: "string list \<Rightarrow> ATLASRelationship list \<Rightarrow> bool" where
  "is_chain [v] [] = True"
| "is_chain (v # w # vs) (rel # rels) =
     (is_hierarchical rel \<and> start_node_id rel = v \<and> end_node_id rel = w \<and>
      is_chain (w # vs) rels)"
| "is_chain vs rels = False"

fun chain_adjacency :: "adjacency \<Rightarrow> string list \<Rightarrow> bool" where
  "chain_adjacency adj [] = True"
| "chain_adjacency adj [v] = (adj v = Some [])"
| "chain_adjacency adj (v # w # vs) = (adj v = Some [w] \<and> chain_adjacency adj (w # vs))"

text \<open>
  A small taxonomy for the scenarios: three nodes of the domain \<open>energy\<close> in a chain
  \<open>A \<rightarrow> B \<rightarrow> C\<close> of two hierarchical relationships, behind a graph adapter that answers
  the queries of the analyzer. \<open>partial_adapter\<close> is the same graph with node \<open>A\<close> outside
  the domain.
\<close>

definition taxonomy_node :: "string \<Rightarrow> ATLASNode" where
  "taxonomy_node i =
     \<lparr>node_id = i, labels = [TAXONOMY_NODE],
      properties = [(''name'', PStr i), (''domain'', PStr ''energy'')],
      created_at = 0, updated_at = 0, validation_status = UNVALIDATED,
      cached_properties = None\<rparr>"

definition chain_relationships :: "ATLASRelationship list" where
  "chain_relationships =
     [\<lparr>rel_id = ''r1'', rel_type = IS_A, start_node_id = ''A'', end_node_id = ''B''\<rparr>,
      \<lparr>rel_id = ''r2'', rel_type = PART_OF, start_node_id = ''B'', end_node_id = ''C''\<rparr>]"

definition matching_relationships ::
  "ATLASRelationship list \<Rightarrow> string option \<Rightarrow> string option \<Rightarrow> ATLASRelationship list" where
  "matching_relationships rels start_id end_id =
     filter (\<lambda>rel. (case start_id of None \<Rightarrow> True | Some s \<Rightarrow> start_node_id rel = s) \<and>
                    (case end_id of None \<Rightarrow> True | Some e \<Rightarrow> end_node_id rel = e)) rels"

definition chain_adapter :: graph_adapter where
  "chain_adapter =
     \<lparr>stored_nodes = Map.empty,
      find_nodes_result = (\<lambda>props. map taxonomy_node [''A'', ''B'', ''C'']),
      find_relationships_result = matching_relationships chain_relationships\<rparr>"

definition partial_adapter :: graph_adapter where
  "partial_adapter =
     \<lparr>stored_nodes = Map.empty,
      find_nodes_result = (\<lambda>props. map taxonomy_node [''B'', ''C'']),
      find_relationships_result = matching_relationships chain_relationships\<rparr>"

text \<open>The key set the claim names for the analysis result, and the one the code builds.\<close>

definition claimed_keys :: "string set" where
  "claimed_keys =
     {''node_count'', ''relationship_count'', ''label_distribution'',
      ''relationship_type_distribution'', ''connectivity'', ''hierarchical_depth''}"

definition analysis_keys :: "string set" where
  "analysis_keys =
     {''domain'', ''node_count'', ''relationship_count'', ''node_label_distribution'',
      ''relationship_type_distribution'', ''connectivity'', ''hierarchical_depth''}"

section \<open>Relationship types: results\<close>

lemma rel_getattr_PRODUCED_BY: "rel_getattr ''PRODUCED_BY'' = Inl (AttributeError ''PRODUCED_BY'')"
  by (simp add: rel_getattr_def RelationshipType_members_def)

lemma eval_inverse_map_display:
  "eval_inverse_map inverse_map_display Map.empty = Inl (AttributeError ''PRODUCED_BY'')"
  by (simp add: inverse_map_display_def rel_getattr_def RelationshipType_members_def)

text \<open>
  C1. The claim is that \<open>inverse_relationship\<close> returns a result for each of the 22
  relationship types, with \<open>PART_OF\<close> and \<open>CONTAINS\<close> inverse to each other,
  \<open>SIMILAR_TO\<close> its own inverse and \<open>IS_A\<close> without inverse. The code does not get
  that far: the dictionary display names members the enum does not have
  (the first is \<open>PRODUCED_BY\<close>), so for every relationship type the property raises
  \<open>AttributeError\<close> while the dictionary is being built.
\<close>

theorem inverse_relationship_raises:
  "inverse_relationship t = Inl (AttributeError ''PRODUCED_BY'')"
  by (simp add: inverse_relationship_def eval_inverse_map_display)

section \<open>The property cache of a node: lemmas\<close>

declare retry_loop.simps [simp del]

lemma foldl_union: "foldl (\<lambda>r l. r \<union> f l) A ls = A \<union> (\<Union>l\<in>set ls. f l)"
  by (induction ls arbitrary: A) auto

lemma required_properties_func_eq: "required_properties_func n = (req_of n, n)"
  by (simp add: required_properties_func_def req_of_def foldl_union)

lemma cached_property_hit:
  assumes "cache_of n name = Some e"
  shows "cached_property name func now n = (entry_value e, n)"
proof -
  from assms obtain c where c: "cached_properties n = Some c" "c name = Some e"
    by (auto simp: cache_of_def split: option.splits)
  show ?thesis
    by (simp add: cached_property_def CachedProperty_get_def Let_def c cache_of_def)
qed

lemma cached_property_miss:
  assumes "cache_of n name = None"
  shows "cached_property name func now n =
     (case func (n\<lparr>cached_properties := Some (cache_of n)\<rparr>) of
        (v, n2) \<Rightarrow>
          (v, n2\<lparr>cached_properties :=
                 Some ((cache_of n2)(name \<mapsto> \<lparr>entry_value = v, entry_timestamp = now\<rparr>))\<rparr>))"
proof (cases "cached_properties n")
  case None
  then show ?thesis
    by (simp add: cached_property_def CachedProperty_get_def Let_def cache_of_def)
next
  case (Some c)
  then have "c name = None" using assms by (simp add: cache_of_def)
  moreover have same: "n\<lparr>cached_properties := Some c\<rparr> = n" using Some by (cases n) simp
  ultimately show ?thesis using Some
    by (simp add: cached_property_def CachedProperty_get_def Let_def cache_of_def same)
qed

lemma required_properties_hit:
  "cache_of n ''required_properties'' = Some e \<Longrightarrow> required_properties now n = (entry_value e, n)"
  by (simp add: required_properties_def cached_property_hit)

lemma required_properties_miss:
  "cache_of n ''required_properties'' = None \<Longrightarrow>
   required_properties now n =
     (req_of n, n\<lparr>cached_properties :=
        Some ((cache_of n)(''required_properties'' \<mapsto> \<lparr>entry_value = req_of n, entry_timestamp = now\<rparr>))\<rparr>)"
  by (simp add: required_properties_def cached_property_miss required_properties_func_eq
      req_of_def cache_of_def)

lemma missing_properties_hit:
  "cache_of n ''missing_properties'' = Some e \<Longrightarrow> missing_properties now n = (entry_value e, n)"
  by (simp add: missing_properties_def cached_property_hit)

lemma missing_properties_miss:
  "cache_of n ''missing_properties'' = None \<Longrightarrow>
   missing_properties now n =
     (case required_properties now (n\<lparr>cached_properties := Some (cache_of n)\<rparr>) of
        (required, n1) \<Rightarrow>
          (required - keys_of n1,
           n1\<lparr>cached_properties :=
                Some ((cache_of n1)(''missing_properties'' \<mapsto>
                   \<lparr>entry_value = required - keys_of n1, entry_timestamp = now\<rparr>))\<rparr>))"
  by (simp add: missing_properties_def cached_property_miss missing_properties_func_def
      keys_of_def split: prod.splits)

text \<open>Only the cache changes when a property is read.\<close>

lemma same_fields_refl [simp]: "same_fields n n"
  by (simp add: same_fields_def)

lemma same_fields_upd [simp]: "same_fields n (n\<lparr>cached_properties := c\<rparr>)"
  by (simp add: same_fields_def)

lemma same_fields_trans: "same_fields a b \<Longrightarrow> same_fields b c \<Longrightarrow> same_fields a c"
  by (cases a, cases b, cases c) (simp add: same_fields_def)

lemma same_fields_D:
  "same_fields n n' \<Longrightarrow> node_id n' = node_id n \<and> labels n' = labels n \<and>
     properties n' = properties n \<and> created_at n' = created_at n \<and>
     updated_at n' = updated_at n \<and> validation_status n' = validation_status n"
  by (cases n, cases n') (simp add: same_fields_def)

lemma req_of_same: "same_fields n n' \<Longrightarrow> req_of n' = req_of n"
  by (simp add: req_of_def same_fields_D)

lemma keys_of_same: "same_fields n n' \<Longrightarrow> keys_of n' = keys_of n"
  by (simp add: keys_of_def same_fields_D)

lemma required_properties_same: "same_fields n (snd (required_properties now n))"
  by (cases "cache_of n ''required_properties''")
     (simp_all add: required_properties_hit required_properties_miss)

lemma missing_properties_same: "same_fields n (snd (missing_properties now n))"
proof (cases "cache_of n ''missing_properties''")
  case None
  obtain r n1 where r: "required_properties now (n\<lparr>cached_properties := Some (cache_of n)\<rparr>) = (r, n1)"
    by (cases "required_properties now (n\<lparr>cached_properties := Some (cache_of n)\<rparr>)")
  have "same_fields (n\<lparr>cached_properties := Some (cache_of n)\<rparr>) n1"
    using required_properties_same [of "n\<lparr>cached_properties := Some (cache_of n)\<rparr>" now] r by simp
  then have "same_fields n n1"
    by (rule same_fields_trans [rotated]) simp
  then have "same_fields n (n1\<lparr>cached_properties := c\<rparr>)" for c
    by (rule same_fields_trans) simp
  then show ?thesis using None r by (simp add: missing_properties_miss)
next
  case (Some e)
  then show ?thesis by (simp add: missing_properties_hit)
qed

section \<open>The operation wrapper: lemmas\<close>

lemma world_target_target [simp]: "w\<lparr>target := a\<rparr>\<lparr>target := b\<rparr> = w\<lparr>target := b\<rparr>"
  by simp

lemma retry_loop_succeeds:
  "attempt + int k \<le> retry_attempts cfg \<Longrightarrow> raises_times func k s \<Longrightarrow>
   func (run_attempts func k s) = (Inr v, s') \<Longrightarrow> target w = (m, s) \<Longrightarrow>
   retry_loop cfg fname (counting func) c attempt last_error w =
     (Inr v, cache_store cfg fname c v (w\<lparr>target := (m + k + 1, s')\<rparr>))"
proof (induction k arbitrary: attempt last_error w m s)
  case 0
  then show ?case
    by (subst retry_loop.simps) (simp add: counting_def)
next
  case (Suc k)
  from Suc.prems(2) obtain e s1 where f: "func s = (Inl e, s1)" and r: "raises_times func k s1"
    by (auto split: prod.splits sum.splits)
  have a: "attempt + 1 + int k \<le> retry_attempts cfg" using Suc.prems(1) by simp
  have run: "func (run_attempts func k s1) = (Inr v, s')" using Suc.prems(3) f by simp
  have "retry_loop cfg fname (counting func) c attempt last_error w =
        retry_loop cfg fname (counting func) c (attempt + 1) (Some e) (w\<lparr>target := (Suc m, s1)\<rparr>)"
    using Suc.prems(1,4) f by (subst retry_loop.simps) (simp add: counting_def)
  also have "\<dots> = (Inr v, cache_store cfg fname c v
                     ((w\<lparr>target := (Suc m, s1)\<rparr>)\<lparr>target := (Suc m + k + 1, s')\<rparr>))"
    by (rule Suc.IH [OF a r run]) simp
  finally show ?case by simp
qed

lemma retry_loop_exhausted:
  "attempt + int k = retry_attempts cfg \<Longrightarrow> raises_times func k s \<Longrightarrow>
   func (run_attempts func k s) = (Inl e, s') \<Longrightarrow> target w = (m, s) \<Longrightarrow>
   retry_loop cfg fname (counting func) c attempt last_error w =
     (Inl e, w\<lparr>target := (m + k + 1, s')\<rparr>)"
proof (induction k arbitrary: attempt last_error w m s)
  case 0
  then show ?case
    by (subst retry_loop.simps) (simp add: counting_def)
next
  case (Suc k)
  from Suc.prems(2) obtain e1 s1 where f: "func s = (Inl e1, s1)" and r: "raises_times func k s1"
    by (auto split: prod.splits sum.splits)
  have a: "attempt + 1 + int k = retry_attempts cfg" using Suc.prems(1) by simp
  have run: "func (run_attempts func k s1) = (Inl e, s')" using Suc.prems(3) f by simp
  have "retry_loop cfg fname (counting func) c attempt last_error w =
        retry_loop cfg fname (counting func) c (attempt + 1) (Some e1) (w\<lparr>target := (Suc m, s1)\<rparr>)"
    using Suc.prems(1,4) f by (subst retry_loop.simps) (simp add: counting_def)
  also have "\<dots> = (Inl e, (w\<lparr>target := (Suc m, s1)\<rparr>)\<lparr>target := (Suc m + k + 1, s')\<rparr>)"
    by (rule Suc.IH [OF a r run]) simp
  finally show ?case by simp
qed

lemma target_cache_store [simp]: "target (cache_store cfg fname c v w) = target w"
  by (simp add: cache_store_def)

lemma atlas_operation_miss:
  "cache_lookup cfg fname c w = None \<Longrightarrow> validation_gate cfg c w = (Inr u, w1) \<Longrightarrow>
   atlas_operation cfg fname func c w = retry_loop cfg fname func c 0 None w1"
  by (simp add: atlas_operation_def)

text \<open>
  C4. Bounded retry, for \<open>retry_attempts = n \<ge> 0\<close>, on a call that has no cached result
  and passes the validation gate. The wrapped body is any state-changing function,
  instrumented with a counter of its invocations that starts at 0. If the body raises on
  its first \<open>k \<le> n\<close> invocations and returns \<open>v\<close> on the next, the wrapper returns \<open>v\<close>
  and the body was invoked \<open>k + 1\<close> times. If it raises on its first \<open>n\<close> invocations and
  raises \<open>e\<close> on invocation \<open>n + 1\<close>, the wrapper raises that same \<open>e\<close> and the body
  was invoked \<open>n + 1\<close> times. (With a negative \<open>retry_attempts\<close> the loop runs no attempt
  at all.)
\<close>

theorem retry_bounded:
  assumes n: "0 \<le> retry_attempts cfg"
    and miss: "cache_lookup cfg fname c w = None"
    and gate: "validation_gate cfg c w = (Inr (), w1)"
    and start: "target w1 = (0, s)"
  shows "(\<forall>k v s'. k \<le> nat (retry_attempts cfg) \<and> raises_times func k s \<and>
                  func (run_attempts func k s) = (Inr v, s') \<longrightarrow>
            fst (atlas_operation cfg fname (counting func) c w) = Inr v \<and>
            target (snd (atlas_operation cfg fname (counting func) c w)) = (k + 1, s')) \<and>
         (\<forall>e s'. raises_times func (nat (retry_attempts cfg)) s \<and>
                func (run_attempts func (nat (retry_attempts cfg)) s) = (Inl e, s') \<longrightarrow>
            atlas_operation cfg fname (counting func) c w =
              (Inl e, w1\<lparr>target := (nat (retry_attempts cfg) + 1, s')\<rparr>))"
proof (intro conjI allI impI)
  fix k v s'
  assume h: "k \<le> nat (retry_attempts cfg) \<and> raises_times func k s \<and>
             func (run_attempts func k s) = (Inr v, s')"
  then have "0 + int k \<le> retry_attempts cfg" using n by linarith
  from retry_loop_succeeds [OF this _ _ start, of func v s' fname c None] h
  have r: "retry_loop cfg fname (counting func) c 0 None w1 =
        (Inr v, cache_store cfg fname c v (w1\<lparr>target := (0 + k + 1, s')\<rparr>))"
    by simp
  show "fst (atlas_operation cfg fname (counting func) c w) = Inr v"
    by (simp add: atlas_operation_miss [OF miss gate] r)
  show "target (snd (atlas_operation cfg fname (counting func) c w)) = (k + 1, s')"
    by (simp add: atlas_operation_miss [OF miss gate] r)
next
  fix e s'
  assume h: "raises_times func (nat (retry_attempts cfg)) s \<and>
             func (run_attempts func (nat (retry_attempts cfg)) s) = (Inl e, s')"
  have "0 + int (nat (retry_attempts cfg)) = retry_attempts cfg" using n by simp
  from retry_loop_exhausted [OF this _ _ start, of func e s' fname c None] h
  show "atlas_operation cfg fname (counting func) c w =
          (Inl e, w1\<lparr>target := (nat (retry_attempts cfg) + 1, s')\<rparr>)"
    by (simp add: atlas_operation_miss [OF miss gate])
qed

lemmas flaky_defs = retry_config_def method_call_def cache_lookup_def validation_gate_def flaky_def

theorem retry_bounded_witness:
  "(0::int) \<le> retry_attempts (retry_config 2) \<and>
   raises_times flaky 2 0 \<and>
   fst (atlas_operation (retry_config 2) ''flaky'' (counting flaky) method_call
          \<lparr>target = (0, 0), operation_cache = None\<rparr>) = Inr ''ok'' \<and>
   fst (target (snd (atlas_operation (retry_config 2) ''flaky'' (counting flaky) method_call
          \<lparr>target = (0, 0), operation_cache = None :: (string \<rightharpoonup> string) option\<rparr>))) = 3 \<and>
   raises_times flaky 1 0 \<and>
   fst (atlas_operation (retry_config 1) ''flaky'' (counting flaky) method_call
          \<lparr>target = (0, 0), operation_cache = None\<rparr>) = Inl (Exception ''attempt failed'') \<and>
   fst (target (snd (atlas_operation (retry_config 1) ''flaky'' (counting flaky) method_call
          \<lparr>target = (0, 0), operation_cache = None :: (string \<rightharpoonup> string) option\<rparr>))) = 2"
proof -
  let ?w = "\<lparr>target = (0::nat, 0::nat), operation_cache = None :: (string \<rightharpoonup> string) option\<rparr>"
  have two: "nat 2 = Suc (Suc 0)" and one: "nat 1 = Suc 0" by simp_all
  have a: "(0::int) \<le> retry_attempts (retry_config 2)" by (simp add: retry_config_def)
  have b: "cache_lookup (retry_config n) ''flaky'' method_call ?w = None" for n
    by (simp add: flaky_defs)
  have c: "validation_gate (retry_config n) method_call ?w = (Inr (), ?w)" for n
    by (simp add: flaky_defs)
  have d: "target ?w = (0, 0)" by simp
  have r2: "raises_times flaky 2 0" by (simp add: flaky_def numeral_2_eq_2)
  have r1: "raises_times flaky 1 0" by (simp add: flaky_def)
  have ok: "flaky (run_attempts flaky 2 0) = (Inr ''ok'', 3)"
    by (simp add: flaky_def numeral_2_eq_2)
  have bad: "flaky (run_attempts flaky 1 0) = (Inl (Exception ''attempt failed''), 2)"
    by (simp add: flaky_def)
  have a1: "(0::int) \<le> retry_attempts (retry_config 1)" by (simp add: retry_config_def)
  from retry_bounded [OF a b c d, of flaky, THEN conjunct1, rule_format, of 2 "''ok''" 3] r2 ok
  have s2: "fst (atlas_operation (retry_config 2) ''flaky'' (counting flaky) method_call ?w) = Inr ''ok''
          \<and> target (snd (atlas_operation (retry_config 2) ''flaky'' (counting flaky) method_call ?w)) = (2 + 1, 3)"
    by (simp add: retry_config_def)
  from retry_bounded [OF a1 b c d, of flaky, THEN conjunct2, rule_format, of "Exception ''attempt failed''" 2] r1 bad
  have s1: "atlas_operation (retry_config 1) ''flaky'' (counting flaky) method_call ?w =
             (Inl (Exception ''attempt failed''), ?w\<lparr>target := (1 + 1, 2)\<rparr>)"
    by (simp add: retry_config_def)
  show ?thesis using a r2 r1 s2 s1 by simp
qed

section \<open>The result cache: lemmas\<close>

lemma cache_lookup_eq:
  "cache_lookup cfg fname c w =
     (if cache_result cfg \<and> has_instance c then cached_result w (cache_key fname c) else None)"
  by (simp add: cache_lookup_def cached_result_def)

lemma cached_result_target [simp]: "cached_result (w\<lparr>target := t\<rparr>) key = cached_result w key"
  by (simp add: cached_result_def)

lemma cached_result_cache_store:
  "cached_result (cache_store cfg fname c v w) key =
     (if cache_result cfg \<and> has_instance c \<and> key = cache_key fname c then Some v
      else cached_result w key)"
  by (simp add: cache_store_def cached_result_def split: option.splits)

lemma operation_cache_gate [simp]:
  "cached_result (snd (validation_gate cfg c w)) key = cached_result w key"
  by (simp add: validation_gate_def split: option.splits prod.splits sum.splits)

lemma world_target_same [simp]: "w\<lparr>target := target w\<rparr> = w"
  by (cases w) simp

lemma retry_loop_shape:
  "\<exists>s'. (\<exists>v. retry_loop cfg fname func c attempt last_error w =
                (Inr v, cache_store cfg fname c v (w\<lparr>target := s'\<rparr>))) \<or>
        (\<exists>e. retry_loop cfg fname func c attempt last_error w = (Inl e, w\<lparr>target := s'\<rparr>))"
proof (induction cfg fname func c attempt last_error w rule: retry_loop.induct)
  case (1 cfg fname func c attempt last_error w)
  show ?case
  proof (cases "attempt \<le> retry_attempts cfg")
    case False
    then have "\<exists>e. retry_loop cfg fname func c attempt last_error w = (Inl e, w\<lparr>target := target w\<rparr>)"
      by (subst retry_loop.simps) (simp split: option.splits)
    then show ?thesis by blast
  next
    case True
    obtain r s1 where f: "func (target w) = (r, s1)" by (cases "func (target w)")
    show ?thesis
    proof (cases r)
      case (Inr x)
      with True f have "retry_loop cfg fname func c attempt last_error w =
          (Inr x, cache_store cfg fname c x (w\<lparr>target := s1\<rparr>))"
        by (subst retry_loop.simps) simp
      then show ?thesis by blast
    next
      case (Inl e)
      show ?thesis
      proof (cases "attempt + 1 \<le> retry_attempts cfg")
        case False
        with True f Inl have "retry_loop cfg fname func c attempt last_error w = (Inl e, w\<lparr>target := s1\<rparr>)"
          by (subst retry_loop.simps) simp
        then show ?thesis by blast
      next
        case t2: True
        have eq: "retry_loop cfg fname func c attempt last_error w =
                  retry_loop cfg fname func c (attempt + 1) (Some e) (w\<lparr>target := s1\<rparr>)"
          using True f Inl t2 by (subst retry_loop.simps) simp
        from "1.IH" [OF True f [symmetric] Inl t2] show ?thesis
          unfolding eq by simp
      qed
    qed
  qed
qed

lemma retry_loop_result_cached:
  assumes "cache_result cfg" "has_instance c"
    and "retry_loop cfg fname func c attempt last_error w = (Inr v, w')"
  shows "cached_result w' (cache_key fname c) = Some v"
  using retry_loop_shape [of cfg fname func c attempt last_error w] assms
  by (auto simp: cached_result_cache_store)

lemma retry_loop_other_keys:
  assumes "key \<noteq> cache_key fname c \<or> \<not> (cache_result cfg \<and> has_instance c)"
  shows "cached_result (snd (retry_loop cfg fname func c attempt last_error w)) key =
         cached_result w key"
  using retry_loop_shape [of cfg fname func c attempt last_error w] assms
  by (auto simp: cached_result_cache_store)

lemma atlas_operation_hit:
  "cache_lookup cfg fname c w = Some v \<Longrightarrow> atlas_operation cfg fname func c w = (Inr v, w)"
  by (simp add: atlas_operation_def)

lemma atlas_operation_result_cached:
  assumes "cache_result cfg" "has_instance c"
    and "atlas_operation cfg fname func c w = (Inr v, w')"
  shows "cached_result w' (cache_key fname c) = Some v"
proof (cases "cache_lookup cfg fname c w")
  case (Some x)
  with assms show ?thesis by (simp add: atlas_operation_hit cache_lookup_eq)
next
  case None
  obtain r w1 where g: "validation_gate cfg c w = (r, w1)" by (cases "validation_gate cfg c w")
  with None assms(3) have "retry_loop cfg fname func c 0 None w1 = (Inr v, w')"
    by (cases r) (simp_all add: atlas_operation_def)
  from retry_loop_result_cached [OF assms(1,2) this] show ?thesis .
qed

lemma atlas_operation_keeps:
  assumes "cached_result w key = Some v"
  shows "cached_result (snd (atlas_operation cfg fname func c w)) key = Some v"
proof (cases "cache_lookup cfg fname c w")
  case (Some x)
  with assms show ?thesis by (simp add: atlas_operation_hit)
next
  case None
  then have k: "key \<noteq> cache_key fname c \<or> \<not> (cache_result cfg \<and> has_instance c)"
    using assms by (auto simp: cache_lookup_eq)
  obtain r w1 where g: "validation_gate cfg c w = (r, w1)" by (cases "validation_gate cfg c w")
  have w1: "cached_result w1 key = Some v"
    using operation_cache_gate [of cfg c w key] g assms by simp
  show ?thesis
  proof (cases r)
    case (Inl e)
    with None g w1 show ?thesis by (simp add: atlas_operation_def)
  next
    case (Inr u)
    with None g have "atlas_operation cfg fname func c w = retry_loop cfg fname func c 0 None w1"
      by (simp add: atlas_operation_def)
    with retry_loop_other_keys [OF k, of func 0 None w1] w1 show ?thesis by simp
  qed
qed

lemma atlas_operation_other_keys:
  assumes "key \<noteq> cache_key fname c"
  shows "cached_result (snd (atlas_operation cfg fname func c w)) key = cached_result w key"
proof (cases "cache_lookup cfg fname c w")
  case (Some x)
  then show ?thesis by (simp add: atlas_operation_hit)
next
  case None
  obtain r w1 where g: "validation_gate cfg c w = (r, w1)" by (cases "validation_gate cfg c w")
  have w1: "cached_result w1 key = cached_result w key"
    using operation_cache_gate [of cfg c w key] g by simp
  show ?thesis
  proof (cases r)
    case (Inl e)
    with None g w1 show ?thesis by (simp add: atlas_operation_def)
  next
    case (Inr u)
    with None g have "atlas_operation cfg fname func c w = retry_loop cfg fname func c 0 None w1"
      by (simp add: atlas_operation_def)
    with retry_loop_other_keys [of key fname c cfg func 0 None w1] assms w1 show ?thesis by simp
  qed
qed

lemma run_ops_keeps:
  "cached_result w key = Some v \<Longrightarrow> cached_result (run_ops ops w) key = Some v"
proof (induction ops arbitrary: w)
  case Nil
  then show ?case by simp
next
  case (Cons op ops)
  obtain cfg fname func c where op: "op = (cfg, fname, func, c)" by (cases op)
  show ?case
    unfolding op run_ops.simps
    by (rule Cons.IH) (rule atlas_operation_keeps [OF Cons.prems])
qed

lemma retry_loop_invokes:
  assumes "attempt \<le> retry_attempts cfg" and "target w = (m, s)"
  shows "m < fst (target (snd (retry_loop cfg fname (counting f) c attempt last_error w)))"
  using assms
proof (induction "nat (retry_attempts cfg - attempt)" arbitrary: attempt last_error w m s)
  case 0
  then have last: "\<not> attempt + 1 \<le> retry_attempts cfg" by simp
  obtain r s1 where f: "f s = (r, s1)" by (cases "f s")
  show ?case using 0 last f
    by (subst retry_loop.simps) (cases r; simp add: counting_def)
next
  case (Suc j)
  then have more: "attempt + 1 \<le> retry_attempts cfg" by simp
  obtain r s1 where f: "f s = (r, s1)" by (cases "f s")
  show ?case
  proof (cases r)
    case (Inr v)
    with Suc.prems f show ?thesis
      by (subst retry_loop.simps) (simp add: counting_def)
  next
    case (Inl e)
    have j: "j = nat (retry_attempts cfg - (attempt + 1))" using Suc.hyps(2) by simp
    have "Suc m < fst (target (snd (retry_loop cfg fname (counting f) c (attempt + 1) (Some e)
                   (w\<lparr>target := (Suc m, s1)\<rparr>))))"
      by (rule Suc.hyps(1) [OF j more]) simp
    then show ?thesis using Suc.prems f Inl more
      by (subst retry_loop.simps) (simp add: counting_def)
  qed
qed

text \<open>
  C5. The result cache, for a wrapper with \<open>cache_result\<close> on, called on an instance
  (the cache is an attribute of the instance) with \<open>retry_attempts \<ge> 0\<close>. The wrapped
  body carries a counter of its invocations that starts at 0. Take a first call for which
  nothing is cached yet, which passes the validation gate and whose body returns \<open>v\<close>.
  Then the call returns \<open>v\<close> after one invocation; every later call with the same cache
  key, that is the same function name and the same printed positional and keyword
  arguments, returns \<open>v\<close> and leaves the whole state as it is, whatever the wrapped
  function and the \<open>validate\<close> method of that call would do and whatever wrapped calls
  \<open>ops\<close> ran on the instance in between: the entry does not expire and neither the
  gate nor the body runs. A call with another key, not cached before, that passes the
  gate invokes the body again.
\<close>

theorem result_cache:
  assumes cache: "cache_result cfg" and inst: "has_instance c"
    and n: "0 \<le> retry_attempts cfg"
    and miss: "cache_lookup cfg fname c w = None"
    and gate: "validation_gate cfg c w = (Inr (), w1)"
    and start: "target w1 = (0, s)"
    and ok: "f s = (Inr v, s')"
    and w2: "w2 = snd (atlas_operation cfg fname (counting f) c w)"
  shows "atlas_operation cfg fname (counting f) c w = (Inr v, w2) \<and>
         target w2 = (1, s') \<and>
         (\<forall>ops g c2. has_instance c2 \<and> cache_key fname c2 = cache_key fname c \<longrightarrow>
            atlas_operation cfg fname g c2 (run_ops ops w2) = (Inr v, run_ops ops w2)) \<and>
         (\<forall>c3 w3 m s3. has_instance c3 \<and> cache_key fname c3 \<noteq> cache_key fname c \<and>
              cache_lookup cfg fname c3 w = None \<and>
              validation_gate cfg c3 w2 = (Inr (), w3) \<and> target w3 = (m, s3) \<longrightarrow>
            m < fst (target (snd (atlas_operation cfg fname (counting f) c3 w2))))"
proof -
  have r: "retry_loop cfg fname (counting f) c 0 None w1 =
             (Inr v, cache_store cfg fname c v (w1\<lparr>target := (0 + 0 + 1, s')\<rparr>))"
    by (rule retry_loop_succeeds [OF _ _ _ start]) (use n ok in simp_all)
  have first: "atlas_operation cfg fname (counting f) c w =
                 (Inr v, cache_store cfg fname c v (w1\<lparr>target := (1, s')\<rparr>))"
    using r by (simp add: atlas_operation_miss [OF miss gate])
  have w2_eq: "w2 = cache_store cfg fname c v (w1\<lparr>target := (1, s')\<rparr>)"
    by (simp add: w2 first)
  have A: "atlas_operation cfg fname (counting f) c w = (Inr v, w2)"
    by (simp add: first w2_eq)
  have B: "target w2 = (1, s')" by (simp add: w2_eq)
  have cached: "cached_result w2 (cache_key fname c) = Some v"
    by (rule atlas_operation_result_cached [OF cache inst A])
  have C: "atlas_operation cfg fname g c2 (run_ops ops w2) = (Inr v, run_ops ops w2)"
    if "has_instance c2 \<and> cache_key fname c2 = cache_key fname c" for ops g c2
  proof -
    have "cached_result (run_ops ops w2) (cache_key fname c) = Some v"
      by (rule run_ops_keeps [OF cached])
    then have "cache_lookup cfg fname c2 (run_ops ops w2) = Some v"
      using that cache by (simp add: cache_lookup_eq)
    then show ?thesis by (rule atlas_operation_hit)
  qed
  have D: "m < fst (target (snd (atlas_operation cfg fname (counting f) c3 w2)))"
    if h: "has_instance c3 \<and> cache_key fname c3 \<noteq> cache_key fname c \<and>
           cache_lookup cfg fname c3 w = None \<and>
           validation_gate cfg c3 w2 = (Inr (), w3) \<and> target w3 = (m, s3)" for c3 w3 m s3
  proof -
    from h have other: "cache_key fname c3 \<noteq> cache_key fname c" by simp
    have "cached_result w2 (cache_key fname c3) = cached_result w (cache_key fname c3)"
      unfolding w2 by (rule atlas_operation_other_keys [OF other])
    also have "\<dots> = None" using h cache by (auto simp: cache_lookup_eq)
    finally have miss3: "cache_lookup cfg fname c3 w2 = None" by (simp add: cache_lookup_eq)

    from h have gate3: "validation_gate cfg c3 w2 = (Inr (), w3)" and t3: "target w3 = (m, s3)"
      by simp_all
    show ?thesis
      unfolding atlas_operation_miss [OF miss3 gate3]
      by (rule retry_loop_invokes [OF _ t3]) (use n in simp)
  qed
  from A B C D show ?thesis by blast
qed


theorem result_cache_witness:
  "cache_result caching_config \<and> has_instance (call_with ''(1,)'') \<and>
   atlas_operation caching_config ''lookup'' (counting (echo ''one'')) (call_with ''(1,)'')
      \<lparr>target = (0, ()), operation_cache = None\<rparr> =
     (Inr ''one'', \<lparr>target = (1, ()), operation_cache = Some [''lookup_(1,)_{}'' \<mapsto> ''one'']\<rparr>) \<and>
   atlas_operation caching_config ''lookup'' (counting (echo ''one'')) (call_with ''(1,)'')
      \<lparr>target = (1, ()), operation_cache = Some [''lookup_(1,)_{}'' \<mapsto> ''one'']\<rparr> =
     (Inr ''one'', \<lparr>target = (1, ()), operation_cache = Some [''lookup_(1,)_{}'' \<mapsto> ''one'']\<rparr>) \<and>
   1 < fst (target (snd (atlas_operation caching_config ''lookup'' (counting (echo ''one''))
      (call_with ''(2,)'')
      \<lparr>target = (1, ()), operation_cache = Some [''lookup_(1,)_{}'' \<mapsto> ''one'']\<rparr>)))"
proof -
  let ?w = "\<lparr>target = (0::nat, ()), operation_cache = None :: (string \<rightharpoonup> string) option\<rparr>"
  let ?w2 = "\<lparr>target = (1::nat, ()), operation_cache = Some [''lookup_(1,)_{}'' \<mapsto> ''one'']\<rparr>"
  let ?c = "call_with ''(1,)''"
  have cache: "cache_result caching_config" by (simp add: caching_config_def)
  have inst: "has_instance ?c" by (simp add: call_with_def)
  have n: "0 \<le> retry_attempts caching_config" by (simp add: caching_config_def)
  have miss: "cache_lookup caching_config ''lookup'' ?c ?w = None"
    by (simp add: cache_lookup_def)
  have gate: "validation_gate caching_config ?c ?w = (Inr (), ?w)"
    by (simp add: validation_gate_def caching_config_def)
  have start: "target ?w = (0, ())" by simp
  have ok: "echo ''one'' () = (Inr ''one'', ())" by (simp add: echo_def)
  have first: "atlas_operation caching_config ''lookup'' (counting (echo ''one'')) ?c ?w = (Inr ''one'', ?w2)"
    by (simp add: atlas_operation_def cache_lookup_def validation_gate_def
        retry_loop.simps [of _ _ _ _ 0] caching_config_def counting_def echo_def
        cache_store_def call_with_def cache_key_def)
  have w2: "?w2 = snd (atlas_operation caching_config ''lookup'' (counting (echo ''one'')) ?c ?w)"
    by (simp add: first)
  note T = result_cache [OF cache inst n miss gate start ok w2]
  have second: "atlas_operation caching_config ''lookup'' (counting (echo ''one'')) ?c ?w2 = (Inr ''one'', ?w2)"
    using T [THEN conjunct2, THEN conjunct2, THEN conjunct1, rule_format,
             where ops = "[]" and g = "counting (echo ''one'')" and ?c2.0 = ?c] inst
    by simp
  have gate3: "validation_gate caching_config (call_with ''(2,)'') ?w2 = (Inr (), ?w2)"
    by (simp add: validation_gate_def caching_config_def)
  have third: "1 < fst (target (snd (atlas_operation caching_config ''lookup''
                   (counting (echo ''one'')) (call_with ''(2,)'') ?w2)))"
    using T [THEN conjunct2, THEN conjunct2, THEN conjunct2, rule_format,
             where ?c3.0 = "call_with ''(2,)''" and ?w3.0 = ?w2 and m = 1 and ?s3.0 = "()"] gate3
    by (simp add: call_with_def cache_key_def cache_lookup_def)
  show ?thesis using cache inst first second third by simp
qed

section \<open>The node's methods: lemmas\<close>

lemma retry_loop_zero:
  "retry_attempts cfg = 0 \<Longrightarrow> retry_loop cfg fname func c 0 None w =
     (case func (target w) of
        (Inr result, s') \<Rightarrow> (Inr result, cache_store cfg fname c result (w\<lparr>target := s'\<rparr>))
      | (Inl e, s') \<Rightarrow> (Inl e, w\<lparr>target := s'\<rparr>))"
  by (subst retry_loop.simps) (auto split: prod.splits sum.splits)

lemma atlas_operation_plain:
  "\<not> requires_validation cfg \<Longrightarrow> retry_attempts cfg = 0 \<Longrightarrow> \<not> cache_result cfg \<Longrightarrow>
   atlas_operation cfg fname func c w =
     (case func (target w) of (r, s') \<Rightarrow> (r, w\<lparr>target := s'\<rparr>))"
  by (auto simp: atlas_operation_def cache_lookup_def validation_gate_def retry_loop_zero cache_store_def
      split: prod.splits sum.splits)

lemma ATLASNode_validate_eq: "ATLASNode_validate now self = validate_func now self"
  by (simp add: ATLASNode_validate_def atlas_operation_plain split: prod.splits)

lemma ATLASNode_update_eq:
  "ATLASNode_update props now self =
     (case ATLASNode_validate now self of
        (Inl e, self1) \<Rightarrow> (Inl e, self1)
      | (Inr ok, self1) \<Rightarrow>
          if ok then update_func props now self1
          else (Inl (ValueError ''Validation failed for update operation''), self1))"
  by (auto simp: ATLASNode_update_def atlas_operation_def cache_lookup_def validation_gate_def
      retry_loop_zero cache_store_def split: prod.splits sum.splits)

text \<open>Reading a property keeps a consistent cache consistent and returns the right set.\<close>

lemma cache_of_upd [simp]: "cache_of (n\<lparr>cached_properties := Some c\<rparr>) = c"
  by (simp add: cache_of_def)

lemma req_of_upd [simp]: "req_of (n\<lparr>cached_properties := c\<rparr>) = req_of n"
  by (simp add: req_of_def)

lemma keys_of_upd [simp]: "keys_of (n\<lparr>cached_properties := c\<rparr>) = keys_of n"
  by (simp add: keys_of_def)

lemma required_properties_value:
  "cache_ok n \<Longrightarrow> fst (required_properties now n) = req_of n"
  by (cases "cache_of n ''required_properties''")
     (simp_all add: required_properties_hit required_properties_miss cache_ok_def)

lemma required_properties_ok:
  "cache_ok n \<Longrightarrow> cache_ok (snd (required_properties now n))"
  by (cases "cache_of n ''required_properties''")
     (simp_all add: required_properties_hit required_properties_miss cache_ok_def
        split: option.splits)

lemma cache_ok_normalise: "cache_ok (n\<lparr>cached_properties := Some (cache_of n)\<rparr>) = cache_ok n"
  by (simp add: cache_ok_def split: option.splits)

lemma missing_properties_value:
  assumes "cache_ok n"
  shows "fst (missing_properties now n) = req_of n - keys_of n"
proof (cases "cache_of n ''missing_properties''")
  case None
  let ?n0 = "n\<lparr>cached_properties := Some (cache_of n)\<rparr>"
  have ok0: "cache_ok ?n0" using assms by (simp add: cache_ok_normalise)
  obtain r n1 where r: "required_properties now ?n0 = (r, n1)"
    by (cases "required_properties now ?n0")
  have "r = req_of n" using required_properties_value [OF ok0, of now] r by simp
  moreover have "same_fields ?n0 n1" using required_properties_same [of ?n0 now] r by simp
  from keys_of_same [OF this] have "keys_of n1 = keys_of n" by simp
  ultimately show ?thesis using None r by (simp add: missing_properties_miss)
next
  case (Some e)
  with assms show ?thesis by (simp add: missing_properties_hit cache_ok_def)
qed

lemma missing_properties_ok:
  assumes "cache_ok n"
  shows "cache_ok (snd (missing_properties now n))"
proof (cases "cache_of n ''missing_properties''")
  case None
  let ?n0 = "n\<lparr>cached_properties := Some (cache_of n)\<rparr>"
  have ok0: "cache_ok ?n0" using assms by (simp add: cache_ok_normalise)
  obtain r n1 where r: "required_properties now ?n0 = (r, n1)"
    by (cases "required_properties now ?n0")
  have rv: "r = req_of n" using required_properties_value [OF ok0, of now] r by simp
  have same: "same_fields ?n0 n1" using required_properties_same [of ?n0 now] r by simp
  have k: "keys_of n1 = keys_of n" and q: "req_of n1 = req_of n"
    using keys_of_same [OF same] req_of_same [OF same] by simp_all
  have ok1: "cache_ok n1" using required_properties_ok [OF ok0, of now] r by simp
  show ?thesis using None r ok1 rv k q
    by (simp add: missing_properties_miss cache_ok_def split: option.splits)
next
  case (Some e)
  with assms show ?thesis by (simp add: missing_properties_hit)
qed

lemma read_items_same:
  "same_fields s (foldl (\<lambda>s item. snd (required_properties now s)) s items)"
proof (induction items arbitrary: s)
  case Nil
  show ?case by simp
next
  case (Cons a items)
  show ?case
    by (simp, rule same_fields_trans [OF required_properties_same Cons.IH])
qed

lemma read_items_ok:
  "cache_ok s \<Longrightarrow> cache_ok (foldl (\<lambda>s item. snd (required_properties now s)) s items)"
  by (induction items arbitrary: s) (simp_all add: required_properties_ok)

lemma validate_func_result:
  "fst (validate_func now n) = Inr (fst (missing_properties now n) = {})"
  by (simp add: validate_func_def split: prod.splits)

lemma validate_func_same: "same_fields n (snd (validate_func now n))"
proof -
  obtain m n1 where m: "missing_properties now n = (m, n1)" by (cases "missing_properties now n")
  have s1: "same_fields n n1" using missing_properties_same [of n now] m by simp
  have "same_fields n (foldl (\<lambda>s item. snd (required_properties now s)) n1 (properties n1))"
    by (rule same_fields_trans [OF s1 read_items_same])
  then show ?thesis
    using m s1 by (simp add: validate_func_def)
qed

lemma validate_func_ok: "cache_ok n \<Longrightarrow> cache_ok (snd (validate_func now n))"
proof -
  assume ok: "cache_ok n"
  obtain m n1 where m: "missing_properties now n = (m, n1)" by (cases "missing_properties now n")
  have "cache_ok n1" using missing_properties_ok [OF ok, of now] m by simp
  then show ?thesis using m by (simp add: validate_func_def read_items_ok)
qed

lemma map_of_dict_update: "map_of (dict_update d p) = map_of d ++ map_of (rev p)"
  unfolding dict_update_def
proof (induction p arbitrary: d)
  case Nil
  show ?case by simp
next
  case (Cons a p)
  obtain k v where a: "a = (k, v)" by (cases a)
  have "map_of (foldl (\<lambda>acc (k, v). AList.update k v acc) d (a # p)) x =
        (map_of d ++ map_of (rev (a # p))) x" for x
    by (simp add: a Cons.IH update_conv' map_add_def map_of_append split: option.splits)
  then show ?case by (rule ext)
qed

lemma keys_dict_update: "fst ` set (dict_update d p) = fst ` set d \<union> fst ` set p"
proof -
  have "dom (map_of (dict_update d p)) = dom (map_of d) \<union> dom (map_of (rev p))"
    by (simp add: map_of_dict_update Un_commute)
  then show ?thesis by (simp add: dom_map_of_conv_image_fst)
qed


lemma cache_ok_fields:
  "cache_ok n \<Longrightarrow> cache_ok (n\<lparr>validation_status := s\<rparr>)"
  "cache_ok n \<Longrightarrow> cache_ok (n\<lparr>updated_at := t\<rparr>)"
  by (simp_all add: cache_ok_def cache_of_def req_of_def keys_of_def split: option.splits)

lemma update_func_ok:
  assumes ok: "cache_ok n" and full: "req_of n - keys_of n = {}"
  shows "cache_ok (snd (update_func p now n))"
proof -
  have "req_of n - (keys_of n \<union> set (map fst p)) = {}" using full by blast
  then show ?thesis using ok full
    by (auto simp: update_func_def Let_def cache_ok_def cache_of_def req_of_def keys_of_def
        keys_dict_update split: option.splits)
qed

lemma ATLASNode_validate_value:
  "cache_ok n \<Longrightarrow> fst (ATLASNode_validate now n) = Inr (req_of n - keys_of n = {})"
  by (simp add: ATLASNode_validate_eq validate_func_result missing_properties_value)

lemma ATLASNode_update_ok:
  assumes ok: "cache_ok n"
  shows "cache_ok (snd (ATLASNode_update p now n))"
proof -
  obtain r n1 where v: "validate_func now n = (r, n1)" by (cases "validate_func now n")
  have ok1: "cache_ok n1" using validate_func_ok [OF ok, of now] v by simp
  have same: "same_fields n n1" using validate_func_same [of n now] v by simp
  have r: "r = Inr (req_of n - keys_of n = {})"
    using ATLASNode_validate_value [OF ok, of now] v by (simp add: ATLASNode_validate_eq)
  show ?thesis
  proof (cases "req_of n - keys_of n = {}")
    case True
    then have "req_of n1 - keys_of n1 = {}"
      by (simp add: req_of_same [OF same] keys_of_same [OF same])
    from update_func_ok [OF ok1 this, of p now] show ?thesis
      using v r True by (simp add: ATLASNode_update_eq ATLASNode_validate_eq)
  next
    case False
    then show ?thesis using v r ok1 by (simp add: ATLASNode_update_eq ATLASNode_validate_eq)
  qed
qed

lemma reachable_cache_ok: "reachable n \<Longrightarrow> cache_ok n"
proof (induction rule: reachable.induct)
  case (created i ls ps now1 now2 n)
  then show ?case
    by (auto simp: ATLASNode_init_def cache_ok_def cache_of_def split: if_splits)
next
  case (validated n now)
  then show ?case by (simp add: ATLASNode_validate_eq validate_func_ok)
next
  case (updated n props now)
  then show ?case by (simp add: ATLASNode_update_ok)
next
  case (status_set n s)
  then show ?case by (simp add: cache_ok_fields)
next
  case (read_required n now)
  then show ?case by (simp add: required_properties_ok)
next
  case (read_missing n now)
  then show ?case by (simp add: missing_properties_ok)
qed

text \<open>
  C7. For every node built by the constructor and changed since through \<open>update\<close>,
  validation, status assignments and property reads only, at any time: the property
  \<open>required_properties\<close> is the union of the labels' required properties,
  \<open>missing_properties\<close> is that union minus the keys of the property map, and
  \<open>validate()\<close> is true exactly when nothing is missing. The scenario node
  (\<open>ENERGY_TERM\<close> with \<open>name\<close>, \<open>created_at\<close>, \<open>updated_at\<close>) is the witness: it
  misses \<open>definition\<close> and \<open>fuel_group\<close> and does not validate. Both properties are
  cached per instance; a write into the property dictionary that bypasses \<open>update\<close>
  is outside this statement.
\<close>

theorem required_and_missing_properties:
  assumes "reachable n"
  shows "fst (required_properties now n) = (\<Union>l\<in>set (labels n). label_required_properties l) \<and>
         fst (missing_properties now n) =
           (\<Union>l\<in>set (labels n). label_required_properties l) - set (map fst (properties n)) \<and>
         fst (ATLASNode_validate now n) =
           Inr ((\<Union>l\<in>set (labels n). label_required_properties l) - set (map fst (properties n)) = {})"
proof -
  have ok: "cache_ok n" using assms by (rule reachable_cache_ok)
  show ?thesis
    using required_properties_value [OF ok, of now] missing_properties_value [OF ok, of now]
      ATLASNode_validate_value [OF ok, of now]
    by (simp add: req_of_def keys_of_def)
qed

theorem required_and_missing_properties_witness:
  "ATLASNode_init ''solar'' [ENERGY_TERM] solar_properties 0 0 = Inr solar \<and>
   fst (required_properties 1 solar) =
     {''name'', ''created_at'', ''updated_at'', ''definition'', ''fuel_group''} \<and>
   fst (missing_properties 1 solar) = {''definition'', ''fuel_group''} \<and>
   fst (ATLASNode_validate 1 solar) = Inr False"
proof -
  have i: "ATLASNode_init ''solar'' [ENERGY_TERM] solar_properties 0 0 = Inr solar"
    by (simp add: ATLASNode_init_def solar_def)
  have r: "reachable solar" by (rule reachable.created [OF i])
  have l: "labels solar = [ENERGY_TERM]" by (simp add: solar_def)
  have p: "set (map fst (properties solar)) = {''name'', ''created_at'', ''updated_at''}"
    by (simp add: solar_def solar_properties_def)
  have e: "label_required_properties ENERGY_TERM =
             {''name'', ''created_at'', ''updated_at'', ''definition'', ''fuel_group''}"
    by (auto simp: label_required_properties_def label_properties_def base_properties_def)
  have u: "(\<Union>l\<in>set (labels solar). label_required_properties l) =
             {''name'', ''created_at'', ''updated_at'', ''definition'', ''fuel_group''}"
    by (simp add: l e)
  have d: "{''name'', ''created_at'', ''updated_at'', ''definition'', ''fuel_group''} -
             set (map fst (properties solar)) = {''definition'', ''fuel_group''}"
    unfolding p by auto
  note T = required_and_missing_properties [OF r, of 1, unfolded u d]
  have ne: "{''definition'', ''fuel_group''} \<noteq> ({} :: string set)" by simp
  show ?thesis using T i ne by simp
qed

lemma update_func_fields:
  "update_func p now n = (Inr n', n'') \<Longrightarrow>
     n'' = n' \<and> map_of (properties n') = map_of (properties n) ++ map_of (rev p) \<and>
     updated_at n' = now \<and> node_id n' = node_id n \<and> labels n' = labels n \<and>
     created_at n' = created_at n \<and> validation_status n' = validation_status n"
  by (auto simp: update_func_def Let_def map_of_dict_update)

lemma validate_func_Inr: "\<exists>b. fst (validate_func now n) = Inr b"
  by (simp add: validate_func_result)

text \<open>
  C2, as amended. \<open>update\<close> runs behind the validation gate of the wrapper
  (\<open>requires_validation=True\<close>). On a node whose \<open>validate()\<close> is true, \<open>update(p)\<close>
  returns the node with \<open>p\<close> merged into the property map (a key of \<open>p\<close> overrides, the
  last binding of a key in \<open>p\<close> wins) and \<open>updated_at\<close> set to the clock reading, with id,
  labels, \<open>created_at\<close> and validation status as before. On a node whose \<open>validate()\<close>
  is false, \<open>update(p)\<close> raises \<open>ValueError\<close> and no field but the property cache
  changes: such a node cannot gain its missing properties through \<open>update\<close>.
\<close>

theorem update_gated:
  "(fst (ATLASNode_validate now n) = Inr True \<longrightarrow>
      (\<exists>n'. ATLASNode_update p now n = (Inr n', n') \<and>
            map_of (properties n') = map_of (properties n) ++ map_of (rev p) \<and>
            updated_at n' = now \<and> node_id n' = node_id n \<and> labels n' = labels n \<and>
            created_at n' = created_at n \<and> validation_status n' = validation_status n)) \<and>
   (fst (ATLASNode_validate now n) = Inr False \<longrightarrow>
      fst (ATLASNode_update p now n) =
        Inl (ValueError ''Validation failed for update operation'') \<and>
      same_fields n (snd (ATLASNode_update p now n)))"
proof -
  obtain r n1 where v: "validate_func now n = (r, n1)" by (cases "validate_func now n")
  have same: "same_fields n n1" using validate_func_same [of n now] v by simp
  note f = same_fields_D [OF same]
  have accepted: "\<exists>n'. ATLASNode_update p now n = (Inr n', n') \<and>
            map_of (properties n') = map_of (properties n) ++ map_of (rev p) \<and>
            updated_at n' = now \<and> node_id n' = node_id n \<and> labels n' = labels n \<and>
            created_at n' = created_at n \<and> validation_status n' = validation_status n"
    if "fst (ATLASNode_validate now n) = Inr True"
  proof -
    have r: "r = Inr True" using that v by (simp add: ATLASNode_validate_eq)
    obtain x n2 where u: "update_func p now n1 = (Inr x, n2)"
      by (simp add: update_func_def Let_def)
    from update_func_fields [OF u] f show ?thesis
      using v r u by (simp add: ATLASNode_update_eq ATLASNode_validate_eq)
  qed
  have refused: "fst (ATLASNode_update p now n) =
            Inl (ValueError ''Validation failed for update operation'') \<and>
          same_fields n (snd (ATLASNode_update p now n))"
    if "fst (ATLASNode_validate now n) = Inr False"
  proof -
    have r: "r = Inr False" using that v by (simp add: ATLASNode_validate_eq)
    show ?thesis using v r same by (simp add: ATLASNode_update_eq ATLASNode_validate_eq)
  qed
  from accepted refused show ?thesis by blast
qed

lemma cache_ok_fresh: "cached_properties n = None \<Longrightarrow> cache_ok n"
  by (simp add: cache_ok_def cache_of_def)

lemma solar_validate: "fst (ATLASNode_validate now solar) = Inr False"
proof -
  have "cache_ok solar" by (rule cache_ok_fresh) (simp add: solar_def)
  from ATLASNode_validate_value [OF this, of now] show ?thesis
    by (auto simp: req_of_def keys_of_def solar_def solar_properties_def
        label_required_properties_def label_properties_def base_properties_def)
qed

lemma concept_validate: "fst (ATLASNode_validate now concept_node) = Inr True"
proof -
  have "cache_ok concept_node" by (rule cache_ok_fresh) (simp add: concept_node_def)
  from ATLASNode_validate_value [OF this, of now] show ?thesis
    by (auto simp: req_of_def keys_of_def concept_node_def
        label_required_properties_def label_properties_def base_properties_def)
qed

theorem update_gated_witness:
  "fst (ATLASNode_validate 1 concept_node) = Inr True \<and>
   (\<exists>n'. ATLASNode_update [(''source'', PStr ''glossary'')] 1 concept_node = (Inr n', n') \<and>
         map_of (properties n') ''source'' = Some (PStr ''glossary'') \<and>
         map_of (properties n') ''name'' = Some (PStr ''Grid'') \<and>
         updated_at n' = 1 \<and> node_id n' = ''concept'' \<and> labels n' = [CONCEPT] \<and>
         created_at n' = 0 \<and> validation_status n' = UNVALIDATED) \<and>
   fst (ATLASNode_validate 1 solar) = Inr False \<and>
   fst (ATLASNode_update solar_additions 1 solar) =
     Inl (ValueError ''Validation failed for update operation'')"
proof -
  from update_gated [of 1 concept_node "[(''source'', PStr ''glossary'')]"] concept_validate [of 1]
  obtain n' where n': "ATLASNode_update [(''source'', PStr ''glossary'')] 1 concept_node = (Inr n', n')"
    "map_of (properties n') = map_of (properties concept_node) ++ map_of (rev [(''source'', PStr ''glossary'')])"
    "updated_at n' = 1" "node_id n' = node_id concept_node" "labels n' = labels concept_node"
    "created_at n' = created_at concept_node" "validation_status n' = validation_status concept_node"
    by blast
  have a: "\<exists>n'. ATLASNode_update [(''source'', PStr ''glossary'')] 1 concept_node = (Inr n', n') \<and>
         map_of (properties n') ''source'' = Some (PStr ''glossary'') \<and>
         map_of (properties n') ''name'' = Some (PStr ''Grid'') \<and>
         updated_at n' = 1 \<and> node_id n' = ''concept'' \<and> labels n' = [CONCEPT] \<and>
         created_at n' = 0 \<and> validation_status n' = UNVALIDATED"
    using n' by (intro exI [of _ n']) (simp add: concept_node_def)
  from update_gated [of 1 solar solar_additions] solar_validate [of 1]
  have b: "fst (ATLASNode_update solar_additions 1 solar) =
     Inl (ValueError ''Validation failed for update operation'')" by blast
  show ?thesis using a b concept_validate [of 1] solar_validate [of 1] by blast
qed

text \<open>
  The claim as stated fails on the scenario node: \<open>update\<close> with \<open>definition\<close> and
  \<open>fuel_group\<close> raises, the property map and \<open>updated_at\<close> stay as they were, and
  \<open>validate()\<close> is still false afterwards.
\<close>

theorem update_refused_counterexample:
  "fst (ATLASNode_update solar_additions 1 solar) =
     Inl (ValueError ''Validation failed for update operation'') \<and>
   map_of (properties (snd (ATLASNode_update solar_additions 1 solar))) ''definition'' = None \<and>
   map_of (properties (snd (ATLASNode_update solar_additions 1 solar))) ''fuel_group'' = None \<and>
   updated_at (snd (ATLASNode_update solar_additions 1 solar)) = 0 \<and>
   fst (ATLASNode_validate 2 (snd (ATLASNode_update solar_additions 1 solar))) = Inr False"
proof -
  obtain r n1 where v: "validate_func 1 solar = (r, n1)" by (cases "validate_func 1 solar")
  have r: "r = Inr False" using solar_validate [of 1] v by (simp add: ATLASNode_validate_eq)
  have u: "ATLASNode_update solar_additions 1 solar =
             (Inl (ValueError ''Validation failed for update operation''), n1)"
    using v r by (simp add: ATLASNode_update_eq ATLASNode_validate_eq)
  have same: "same_fields solar n1" using validate_func_same [of solar 1] v by simp
  note f = same_fields_D [OF same]
  have ok: "cache_ok n1"
    using validate_func_ok [OF cache_ok_fresh, of solar 1] v by (simp add: solar_def)
  have "fst (ATLASNode_validate 2 n1) = Inr (req_of solar - keys_of solar = {})"
    using ATLASNode_validate_value [OF ok, of 2]
    by (simp add: req_of_same [OF same] keys_of_same [OF same])
  also have "\<dots> = Inr False"
    by (auto simp: req_of_def keys_of_def solar_def solar_properties_def
        label_required_properties_def label_properties_def base_properties_def)
  finally have again: "fst (ATLASNode_validate 2 n1) = Inr False" .
  show ?thesis using u f again by (simp add: solar_def solar_properties_def)
qed

section \<open>Staleness of the property cache\<close>

lemma required_properties_keeps:
  "cache_of n k = Some e \<Longrightarrow> cache_of (snd (required_properties now n)) k = Some e"
  by (cases "cache_of n ''required_properties''")
     (auto simp: required_properties_hit required_properties_miss)

lemma missing_properties_keeps:
  assumes "cache_of n k = Some e"
  shows "cache_of (snd (missing_properties now n)) k = Some e"
proof (cases "cache_of n ''missing_properties''")
  case None
  let ?n0 = "n\<lparr>cached_properties := Some (cache_of n)\<rparr>"
  obtain r n1 where r: "required_properties now ?n0 = (r, n1)"
    by (cases "required_properties now ?n0")
  have "cache_of ?n0 k = Some e" using assms by simp
  from required_properties_keeps [OF this, of now] r have "cache_of n1 k = Some e" by simp
  moreover have "k \<noteq> ''missing_properties''" using None assms by auto
  ultimately show ?thesis using None r by (simp add: missing_properties_miss)
next
  case (Some x)
  with assms show ?thesis by (simp add: missing_properties_hit)
qed

lemma read_items_keeps:
  "cache_of s k = Some e \<Longrightarrow>
   cache_of (foldl (\<lambda>s item. snd (required_properties now s)) s items) k = Some e"
  by (induction items arbitrary: s) (simp_all add: required_properties_keeps)

lemma validate_func_keeps:
  assumes "cache_of n k = Some e"
  shows "cache_of (snd (validate_func now n)) k = Some e"
proof -
  obtain m n1 where m: "missing_properties now n = (m, n1)" by (cases "missing_properties now n")
  have "cache_of n1 k = Some e" using missing_properties_keeps [OF assms, of now] m by simp
  then show ?thesis using m by (simp add: validate_func_def read_items_keeps)
qed

lemma update_func_cache [simp]: "cache_of (snd (update_func p now n)) = cache_of n"
  by (simp add: update_func_def Let_def cache_of_def)

lemma ATLASNode_update_keeps:
  assumes "cache_of n k = Some e"
  shows "cache_of (snd (ATLASNode_update p now n)) k = Some e"
proof -
  obtain r n1 where v: "validate_func now n = (r, n1)" by (cases "validate_func now n")
  have "cache_of n1 k = Some e" using validate_func_keeps [OF assms, of now] v by simp
  then show ?thesis using v
    by (cases r) (simp_all add: ATLASNode_update_eq ATLASNode_validate_eq)
qed

lemma missing_properties_cached:
  "\<exists>e. cache_of (snd (missing_properties now n)) ''missing_properties'' = Some e \<and>
       entry_value e = fst (missing_properties now n)"
proof (cases "cache_of n ''missing_properties''")
  case None
  then show ?thesis by (simp add: missing_properties_miss split: prod.splits)
next
  case (Some x)
  then show ?thesis by (simp add: missing_properties_hit)
qed

lemma validate_func_cached:
  "\<exists>e. cache_of (snd (validate_func now n)) ''missing_properties'' = Some e \<and>
       fst (validate_func now n) = Inr (entry_value e = {})"
proof -
  obtain m n1 where m: "missing_properties now n = (m, n1)" by (cases "missing_properties now n")
  from missing_properties_cached [of now n] m
  obtain e where e: "cache_of n1 ''missing_properties'' = Some e" "entry_value e = m" by auto
  have "cache_of (snd (validate_func now n)) ''missing_properties'' = Some e"
    using m e(1) by (simp add: validate_func_def read_items_keeps)
  moreover have "fst (validate_func now n) = Inr (entry_value e = {})"
    using m e(2) by (simp add: validate_func_def)
  ultimately show ?thesis by blast
qed

lemma cache_of_properties [simp]: "cache_of (n\<lparr>properties := ps\<rparr>) = cache_of n"
  by (simp add: cache_of_def)

lemma validate_stale:
  "fst (validate_func now2 ((snd (validate_func now1 n))\<lparr>properties := ps\<rparr>)) =
   fst (validate_func now1 n)"
proof -
  from validate_func_cached [of now1 n]
  obtain e where e: "cache_of (snd (validate_func now1 n)) ''missing_properties'' = Some e"
    "fst (validate_func now1 n) = Inr (entry_value e = {})" by blast
  let ?n2 = "(snd (validate_func now1 n))\<lparr>properties := ps\<rparr>"
  have "cache_of ?n2 ''missing_properties'' = Some e" using e(1) by simp
  then have "missing_properties now2 ?n2 = (entry_value e, ?n2)"
    by (rule missing_properties_hit)
  then have "fst (validate_func now2 ?n2) = Inr (entry_value e = {})"
    by (simp add: validate_func_result)
  with e(2) show ?thesis by simp
qed

text \<open>
  C9. The two properties are computed once per instance and cached without expiration:
  \<open>update\<close> never drops or changes an entry of the property cache; once \<open>validate()\<close>
  has run, its answer at any later time is the first answer, whatever the property map
  has become since (here the map is overwritten in place, as
  \<open>node.properties.update(...)\<close> does); and there is a node, the scenario node, for
  which \<open>validate()\<close> is false, the property map then gains every required property, and
  \<open>validate()\<close> is still false.
\<close>

theorem validation_is_cached:
  "(\<forall>k e. cache_of n k = Some e \<longrightarrow> cache_of (snd (ATLASNode_update p now n)) k = Some e) \<and>
   fst (ATLASNode_validate now2 ((snd (ATLASNode_validate now1 n))\<lparr>properties := ps\<rparr>)) =
     fst (ATLASNode_validate now1 n) \<and>
   (\<exists>node added.
      fst (ATLASNode_validate 1 node) = Inr False \<and>
      req_of node \<subseteq> set (map fst (dict_update (properties node) added)) \<and>
      fst (ATLASNode_validate 2
             ((snd (ATLASNode_validate 1 node))
                \<lparr>properties := dict_update (properties node) added\<rparr>)) = Inr False)"
proof (intro conjI)
  show "\<forall>k e. cache_of n k = Some e \<longrightarrow> cache_of (snd (ATLASNode_update p now n)) k = Some e"
    by (simp add: ATLASNode_update_keeps)
  show "fst (ATLASNode_validate now2 ((snd (ATLASNode_validate now1 n))\<lparr>properties := ps\<rparr>)) =
     fst (ATLASNode_validate now1 n)"
    by (simp add: ATLASNode_validate_eq validate_stale)
  have a: "fst (ATLASNode_validate 1 solar) = Inr False" by (rule solar_validate)
  have b: "req_of solar \<subseteq> set (map fst (dict_update (properties solar) solar_additions))"
    by (auto simp: keys_dict_update req_of_def solar_def solar_properties_def solar_additions_def
        label_required_properties_def label_properties_def base_properties_def)
  have c: "fst (ATLASNode_validate 2
             ((snd (ATLASNode_validate 1 solar))
                \<lparr>properties := dict_update (properties solar) solar_additions\<rparr>)) = Inr False"
    using a by (simp add: ATLASNode_validate_eq validate_stale)
  from a b c show "\<exists>node added.
      fst (ATLASNode_validate 1 node) = Inr False \<and>
      req_of node \<subseteq> set (map fst (dict_update (properties node) added)) \<and>
      fst (ATLASNode_validate 2
             ((snd (ATLASNode_validate 1 node))
                \<lparr>properties := dict_update (properties node) added\<rparr>)) = Inr False"
    by blast
qed


theorem validation_is_cached_witness:
  "fst (ATLASNode_validate 1 solar) = Inr False \<and>
   fst (ATLASNode_validate 2
          ((snd (ATLASNode_validate 1 solar))
             \<lparr>properties := dict_update solar_properties solar_additions\<rparr>)) = Inr False \<and>
   (\<exists>e. cache_of (snd (ATLASNode_validate 1 solar)) ''missing_properties'' = Some e \<and>
        entry_value e = {''definition'', ''fuel_group''} \<and>
        cache_of (snd (ATLASNode_update solar_additions 2 (snd (ATLASNode_validate 1 solar))))
          ''missing_properties'' = Some e)"
proof -
  let ?n1 = "snd (ATLASNode_validate 1 solar)"
  have a: "fst (ATLASNode_validate 1 solar) = Inr False" by (rule solar_validate)
  note T = validation_is_cached [where n = solar and ?now1.0 = 1 and ?now2.0 = 2 and
             ps = "dict_update solar_properties solar_additions"]
  note U = validation_is_cached [where n = ?n1 and p = solar_additions and now = 2]
  have b: "fst (ATLASNode_validate 2 (?n1\<lparr>properties := dict_update solar_properties solar_additions\<rparr>))
             = Inr False"
    using T a by simp
  from missing_properties_cached [of 1 solar]
  obtain e where e: "cache_of (snd (missing_properties 1 solar)) ''missing_properties'' = Some e"
    "entry_value e = fst (missing_properties 1 solar)" by blast
  have ok: "cache_ok solar" by (rule cache_ok_fresh) (simp add: solar_def)
  have m: "fst (missing_properties 1 solar) = {''definition'', ''fuel_group''}"
    using missing_properties_value [OF ok, of 1]
    by (auto simp: req_of_def keys_of_def solar_def solar_properties_def
        label_required_properties_def label_properties_def base_properties_def)
  obtain mm x where mx: "missing_properties 1 solar = (mm, x)"
    by (cases "missing_properties 1 solar")
  have "mm \<noteq> {}" using m mx by auto
  then have n1: "?n1 = snd (missing_properties 1 solar)"
    using mx by (simp add: ATLASNode_validate_eq validate_func_def)
  have c1: "cache_of ?n1 ''missing_properties'' = Some e" using e(1) n1 by simp
  have c2: "cache_of (snd (ATLASNode_update solar_additions 2 ?n1)) ''missing_properties'' = Some e"
    using U c1 by blast
  have ev: "entry_value e = {''definition'', ''fuel_group''}" using e(2) m by simp
  from c1 ev c2 have "\<exists>e. cache_of ?n1 ''missing_properties'' = Some e \<and>
        entry_value e = {''definition'', ''fuel_group''} \<and>
        cache_of (snd (ATLASNode_update solar_additions 2 ?n1)) ''missing_properties'' = Some e"
    by blast
  with a b show ?thesis by blast
qed

section \<open>Status changes\<close>

lemma validate_node_eq: "validate_node nid now client = validate_node_func nid now client"
  by (simp add: validate_node_def default_config_def atlas_operation_plain split: prod.splits)

lemma allowed_from_UNVALIDATED:
  "allowed_transitions UNVALIDATED = {PENDING, AUTOMATED_VALIDATED, NEEDS_REVIEW, REJECTED}"
  by (simp add: allowed_transitions_def transitions_def)

lemma validate_node_found:
  assumes "stored_nodes (adapter :: graph_adapter) nid = Some node"
  shows "\<exists>node'. validate_node nid now (Some adapter) =
              (fst (ATLASNode_validate now node),
               Some (adapter\<lparr>stored_nodes := (stored_nodes adapter)(node_id node \<mapsto> node')\<rparr>)) \<and>
           validation_status node' =
             (if fst (ATLASNode_validate now node) = Inr True then VALIDATED else NEEDS_REVIEW) \<and>
           node_id node' = node_id node \<and> labels node' = labels node \<and>
           properties node' = properties node"
proof -
  obtain r n1 where v: "validate_func now node = (r, n1)" by (cases "validate_func now node")
  from validate_func_Inr [of now node] v obtain b where r: "r = Inr b" by auto
  have same: "same_fields node n1" using validate_func_same [of node now] v by simp
  note f = same_fields_D [OF same]
  let ?n2 = "n1\<lparr>validation_status := (if b then VALIDATED else NEEDS_REVIEW)\<rparr>"
  have "validate_node nid now (Some adapter) =
          (Inr b, Some (adapter\<lparr>stored_nodes := (stored_nodes adapter)(node_id node \<mapsto> ?n2)\<rparr>))"
    using assms v r f by (simp add: validate_node_eq validate_node_func_def ATLASNode_validate_eq)
  then show ?thesis using v r f
    by (intro exI [of _ ?n2]) (simp add: ATLASNode_validate_eq)
qed

text \<open>
  C3, as amended. \<open>allowed_transitions\<close> is a table lookup: from \<open>UNVALIDATED\<close>,
  \<open>PENDING\<close> is allowed and \<open>EXPERT_VALIDATED\<close> is not. No operation of the code checks a
  status change against the table. \<open>validate_node\<close>, the operation that commits one,
  assigns \<open>VALIDATED\<close> to a stored node when the node's \<open>validate()\<close> is true and
  \<open>NEEDS_REVIEW\<close> when it is false, whatever the node's status was, stores the node and
  returns the answer of \<open>validate()\<close>; without a graph adapter, or for an id that is not
  stored, it returns \<open>False\<close> and changes nothing.
\<close>

theorem validate_node_assigns_status:
  "PENDING \<in> allowed_transitions UNVALIDATED \<and>
   EXPERT_VALIDATED \<notin> allowed_transitions UNVALIDATED \<and>
   (\<forall>(adapter :: graph_adapter) node. stored_nodes adapter nid = Some node \<longrightarrow>
      (\<exists>node'. validate_node nid now (Some adapter) =
              (fst (ATLASNode_validate now node),
               Some (adapter\<lparr>stored_nodes := (stored_nodes adapter)(node_id node \<mapsto> node')\<rparr>)) \<and>
           validation_status node' =
             (if fst (ATLASNode_validate now node) = Inr True then VALIDATED else NEEDS_REVIEW) \<and>
           node_id node' = node_id node \<and> labels node' = labels node \<and>
           properties node' = properties node)) \<and>
   (\<forall>adapter :: graph_adapter. stored_nodes adapter nid = None \<longrightarrow>
      validate_node nid now (Some adapter) = (Inr False, Some adapter)) \<and>
   validate_node nid now None = (Inr False, None)"
proof (intro conjI allI impI)
  show "PENDING \<in> allowed_transitions UNVALIDATED" by (simp add: allowed_from_UNVALIDATED)
  show "EXPERT_VALIDATED \<notin> allowed_transitions UNVALIDATED" by (simp add: allowed_from_UNVALIDATED)
  show "validate_node nid now None = (Inr False, None)"
    by (simp add: validate_node_eq validate_node_func_def)
next
  fix adapter :: graph_adapter and node
  assume "stored_nodes adapter nid = Some node"
  then show "\<exists>node'. validate_node nid now (Some adapter) =
              (fst (ATLASNode_validate now node),
               Some (adapter\<lparr>stored_nodes := (stored_nodes adapter)(node_id node \<mapsto> node')\<rparr>)) \<and>
           validation_status node' =
             (if fst (ATLASNode_validate now node) = Inr True then VALIDATED else NEEDS_REVIEW) \<and>
           node_id node' = node_id node \<and> labels node' = labels node \<and>
           properties node' = properties node"
    by (rule validate_node_found)
next
  fix adapter :: graph_adapter
  assume "stored_nodes adapter nid = None"
  then show "validate_node nid now (Some adapter) = (Inr False, Some adapter)"
    by (simp add: validate_node_eq validate_node_func_def)
qed

lemma concept_stored: "stored_nodes concept_store ''concept'' = Some concept_node"
  by (simp add: concept_store_def)

theorem validate_node_assigns_status_witness:
  "stored_nodes concept_store ''concept'' = Some concept_node \<and>
   (\<exists>node'. snd (validate_node ''concept'' 1 (Some concept_store)) =
              Some (concept_store\<lparr>stored_nodes := [''concept'' \<mapsto> node']\<rparr>) \<and>
           validation_status node' = VALIDATED) \<and>
   fst (validate_node ''concept'' 1 (Some concept_store)) = Inr True \<and>
   validate_node ''other'' 1 (Some concept_store) = (Inr False, Some concept_store)"
proof -
  from validate_node_assigns_status [of "''concept''" 1, THEN conjunct2, THEN conjunct2,
         THEN conjunct1, rule_format, OF concept_stored]
  obtain node' where n: "validate_node ''concept'' 1 (Some concept_store) =
       (fst (ATLASNode_validate 1 concept_node),
        Some (concept_store\<lparr>stored_nodes :=
               (stored_nodes concept_store)(node_id concept_node \<mapsto> node')\<rparr>))"
     "validation_status node' =
        (if fst (ATLASNode_validate 1 concept_node) = Inr True then VALIDATED else NEEDS_REVIEW)"
    by blast
  have id: "node_id concept_node = ''concept''" by (simp add: concept_node_def)
  have st: "(stored_nodes concept_store)(''concept'' \<mapsto> node') = [''concept'' \<mapsto> node']"
    by (simp add: concept_store_def)
  have a: "\<exists>node'. snd (validate_node ''concept'' 1 (Some concept_store)) =
              Some (concept_store\<lparr>stored_nodes := [''concept'' \<mapsto> node']\<rparr>) \<and>
           validation_status node' = VALIDATED"
    using n concept_validate [of 1] id st by (intro exI [of _ node']) simp
  have b: "fst (validate_node ''concept'' 1 (Some concept_store)) = Inr True"
    using n(1) concept_validate [of 1] by simp
  have "stored_nodes concept_store ''other'' = None" by (simp add: concept_store_def)
  with validate_node_assigns_status [of "''other''" 1]
  have c: "validate_node ''other'' 1 (Some concept_store) = (Inr False, Some concept_store)"
    by blast
  show ?thesis using concept_stored a b c by blast
qed

text \<open>
  The claim as stated fails: a complete node in status \<open>UNVALIDATED\<close> is moved to
  \<open>VALIDATED\<close>, which is not among the allowed transitions of \<open>UNVALIDATED\<close>.
\<close>

theorem validate_node_transition_counterexample:
  "validation_status concept_node = UNVALIDATED \<and>
   VALIDATED \<notin> allowed_transitions UNVALIDATED \<and>
   fst (validate_node ''concept'' 1 (Some concept_store)) = Inr True \<and>
   (\<exists>adapter node'. snd (validate_node ''concept'' 1 (Some concept_store)) = Some adapter \<and>
       stored_nodes adapter ''concept'' = Some node' \<and> validation_status node' = VALIDATED)"
proof -
  from validate_node_found [OF concept_stored, of 1]
  obtain node' where n: "validate_node ''concept'' 1 (Some concept_store) =
       (fst (ATLASNode_validate 1 concept_node),
        Some (concept_store\<lparr>stored_nodes :=
               (stored_nodes concept_store)(node_id concept_node \<mapsto> node')\<rparr>))"
     "validation_status node' =
        (if fst (ATLASNode_validate 1 concept_node) = Inr True then VALIDATED else NEEDS_REVIEW)"
    by blast
  have id: "node_id concept_node = ''concept''" by (simp add: concept_node_def)
  have a: "validation_status concept_node = UNVALIDATED" by (simp add: concept_node_def)
  have b: "VALIDATED \<notin> allowed_transitions UNVALIDATED" by (simp add: allowed_from_UNVALIDATED)
  have c: "fst (validate_node ''concept'' 1 (Some concept_store)) = Inr True"
    using n(1) concept_validate [of 1] by simp
  have d: "\<exists>adapter node'. snd (validate_node ''concept'' 1 (Some concept_store)) = Some adapter \<and>
       stored_nodes adapter ''concept'' = Some node' \<and> validation_status node' = VALIDATED"
    using n concept_validate [of 1] id
    by (intro exI [of _ "concept_store\<lparr>stored_nodes :=
               (stored_nodes concept_store)(node_id concept_node \<mapsto> node')\<rparr>"] exI [of _ node'])
       simp
  from a b c d show ?thesis by blast
qed

section \<open>The adjacency and the traversal: lemmas\<close>

lemma init_adjacency_foldl:
  "foldl (\<lambda>adj node. adj(node_id node \<mapsto> [])) adj0 nodes =
     (\<lambda>x. if x \<in> set (map node_id nodes) then Some [] else adj0 x)"
  by (induction nodes arbitrary: adj0) (auto simp: fun_eq_iff)

lemma init_adjacency_eq:
  "init_adjacency nodes = (\<lambda>x. if x \<in> set (map node_id nodes) then Some [] else None)"
  by (simp add: init_adjacency_def init_adjacency_foldl)

lemma add_edges_KeyError:
  assumes "\<exists>rel\<in>set rels. is_hierarchical rel \<and> start_node_id rel \<notin> dom adj"
  shows "\<exists>k. add_edges rels adj = Inl (KeyError k) \<and> k \<notin> dom adj"
  using assms
proof (induction rels arbitrary: adj)
  case Nil
  then show ?case by simp
next
  case (Cons rel rels)
  show ?case
  proof (cases "is_hierarchical rel")
    case False
    with Cons.prems have "\<exists>rel\<in>set rels. is_hierarchical rel \<and> start_node_id rel \<notin> dom adj"
      by auto
    from Cons.IH [OF this] False show ?thesis by simp
  next
    case True
    show ?thesis
    proof (cases "adj (start_node_id rel)")
      case None
      with True show ?thesis by (auto simp: domIff)
    next
      case (Some children)
      let ?adj = "adj(start_node_id rel \<mapsto> children @ [end_node_id rel])"
      have d: "dom ?adj = dom adj" using Some by auto
      from Cons.prems Some
      have "\<exists>rel\<in>set rels. is_hierarchical rel \<and> start_node_id rel \<notin> dom ?adj"
        unfolding d by auto
      from Cons.IH [OF this] obtain k where
        k: "add_edges rels ?adj = Inl (KeyError k)" "k \<notin> dom ?adj" by blast
      have "add_edges (rel # rels) adj = add_edges rels ?adj" using True Some by simp
      with k d show ?thesis by metis
    qed
  qed
qed

lemma add_edges_Inr:
  assumes "\<forall>rel\<in>set rels. is_hierarchical rel \<longrightarrow> start_node_id rel \<in> dom adj"
  shows "add_edges rels adj =
     Inr (\<lambda>x. map_option
                (\<lambda>children. children @ map end_node_id
                    (filter (\<lambda>rel. is_hierarchical rel \<and> start_node_id rel = x) rels))
                (adj x))"
  using assms
proof (induction rels arbitrary: adj)
  case Nil
  show ?case by (simp add: option.map_ident)
next
  case (Cons rel rels)
  show ?case
  proof (cases "is_hierarchical rel")
    case False
    with Cons.prems have "\<forall>rel\<in>set rels. is_hierarchical rel \<longrightarrow> start_node_id rel \<in> dom adj"
      by auto
    from Cons.IH [OF this] False show ?thesis by simp
  next
    case True
    with Cons.prems obtain children where c: "adj (start_node_id rel) = Some children"
      by auto
    let ?adj = "adj(start_node_id rel \<mapsto> children @ [end_node_id rel])"
    have d: "dom ?adj = dom adj" using c by auto
    have r: "\<forall>rel\<in>set rels. is_hierarchical rel \<longrightarrow> start_node_id rel \<in> dom ?adj"
      unfolding d using Cons.prems by auto
    let ?f = "\<lambda>rs a x. map_option
                (\<lambda>children. children @ map end_node_id
                    (filter (\<lambda>rel. is_hierarchical rel \<and> start_node_id rel = x) rs))
                (a x)"
    have eq: "?f rels ?adj = ?f (rel # rels) adj"
      using True c by (auto simp: fun_eq_iff)
    have "add_edges (rel # rels) adj = add_edges rels ?adj" using True c by simp
    also have "\<dots> = Inr (?f rels ?adj)" by (rule Cons.IH [OF r])
    also have "\<dots> = Inr (?f (rel # rels) adj)" by (simp only: eq)
    finally show ?thesis .
  qed
qed

lemma dom_init_adjacency: "dom (init_adjacency nodes) = set (map node_id nodes)"
  by (auto simp: init_adjacency_eq split: if_splits)

lemma add_edges_init:
  assumes "\<forall>rel\<in>set rels. is_hierarchical rel \<longrightarrow> start_node_id rel \<in> set (map node_id nodes)"
  shows "add_edges rels (init_adjacency nodes) = Inr (adjacency_of nodes rels)"
proof -
  have "\<forall>rel\<in>set rels. is_hierarchical rel \<longrightarrow> start_node_id rel \<in> dom (init_adjacency nodes)"
    using assms by (simp only: dom_init_adjacency)
  from add_edges_Inr [OF this] show ?thesis
    by (simp add: adjacency_of_def init_adjacency_eq fun_eq_iff)
qed

lemma card_unvisited_insert:
  assumes "finite U" "x \<in> U" "x \<notin> vis" "card (U - vis) \<le> Suc fuel"
  shows "card (U - insert x vis) \<le> fuel"
proof -
  have "U - insert x vis = (U - vis) - {x}" by auto
  moreover have "x \<in> U - vis" using assms by simp
  moreover have "finite (U - vis)" using assms by simp
  ultimately have "card (U - insert x vis) = card (U - vis) - 1" by simp
  with assms(4) show ?thesis by simp
qed

lemma dfs_total:
  assumes fin: "finite U"
  shows "\<forall>x children. adj x = Some children \<longrightarrow> set children \<subseteq> U \<Longrightarrow>
         nid \<in> U \<Longrightarrow> nid \<notin> fst st \<Longrightarrow> card (U - fst st) \<le> fuel \<Longrightarrow>
           \<exists>st'. dfs fuel adj nid depth st = Some st' \<and> fst st \<subseteq> fst st'"
    and "\<forall>x children. adj x = Some children \<longrightarrow> set children \<subseteq> U \<Longrightarrow>
         set cs \<subseteq> U \<Longrightarrow> card (U - fst st) \<le> fuel \<Longrightarrow>
           \<exists>st'. dfs_children fuel adj cs depth st = Some st' \<and> fst st \<subseteq> fst st'"
proof (induction fuel adj nid depth st and fuel adj cs depth st rule: dfs_dfs_children.induct)
  case (1 adj nid depth st)
  then have "nid \<in> U - fst st" by simp
  with fin have "card (U - fst st) \<noteq> 0" by auto
  with 1 show ?case by simp
next
  case (2 fuel adj nid depth visited max_depth)
  note closed = "2.prems"(1)
  let ?cs = "case adj nid of None \<Rightarrow> [] | Some children \<Rightarrow> children"
  let ?st = "(insert nid visited, if depth > max_depth then depth else max_depth)"
  have cs: "set ?cs \<subseteq> U"
  proof (cases "adj nid")
    case None
    then show ?thesis by simp
  next
    case (Some children)
    with closed show ?thesis by simp
  qed
  have "card (U - fst ?st) \<le> fuel"
    using card_unvisited_insert [OF fin, of nid visited fuel] "2.prems" by simp
  from "2.IH" [OF closed cs this] obtain st' where
    st': "dfs_children fuel adj ?cs depth ?st = Some st'" "fst ?st \<subseteq> fst st'" by blast
  then show ?case by auto
next
  case (3 fuel adj depth st)
  then show ?case by simp
next
  case (4 fuel adj child_id rest depth visited max_depth)
  note closed = "4.prems"(1)
  have rest: "set rest \<subseteq> U" and child: "child_id \<in> U" using "4.prems" by simp_all
  have bound: "card (U - visited) \<le> fuel" using "4.prems"(3) by simp
  show ?case
  proof (cases "child_id \<in> visited")
    case True
    from "4.IH"(3) [OF _ closed rest] True bound show ?thesis by simp
  next
    case False
    from "4.IH"(1) [OF False closed child] False bound obtain st1 where
      st1: "dfs fuel adj child_id (depth + 1) (visited, max_depth) = Some st1"
        "visited \<subseteq> fst st1" by auto
    have "U - fst st1 \<subseteq> U - visited" using st1(2) by auto
    then have "card (U - fst st1) \<le> card (U - visited)"
      using fin by (intro card_mono) auto
    then have c: "card (U - fst st1) \<le> fuel" using bound by simp
    from "4.IH"(2) [OF False st1(1) closed rest c] obtain st' where
      "dfs_children fuel adj rest depth st1 = Some st'" "fst st1 \<subseteq> fst st'" by blast
    with st1 False show ?thesis by auto
  qed
qed

lemma dfs_starts_total:
  assumes fin: "finite U"
    and closed: "\<forall>x children. adj x = Some children \<longrightarrow> set children \<subseteq> U"
  shows "set (map node_id nodes) \<subseteq> U \<Longrightarrow> card (U - fst st) \<le> fuel \<Longrightarrow>
           \<exists>st'. dfs_starts fuel adj nodes st = Some st'"
proof (induction nodes arbitrary: st)
  case Nil
  show ?case by simp
next
  case (Cons node nodes)
  obtain visited max_depth where st: "st = (visited, max_depth)" by (cases st)
  have rest: "set (map node_id nodes) \<subseteq> U" and n: "node_id node \<in> U"
    using Cons.prems by simp_all
  show ?case
  proof (cases "node_id node \<in> visited")
    case True
    with Cons.IH [OF rest Cons.prems(2)] st show ?thesis by simp
  next
    case False
    from dfs_total(1) [OF fin closed n, where st = st and fuel = fuel and depth = 0]
      False Cons.prems(2) st obtain st1 where
      st1: "dfs fuel adj (node_id node) 0 (visited, max_depth) = Some st1" "visited \<subseteq> fst st1"
      by auto
    have "U - fst st1 \<subseteq> U - visited" using st1(2) by auto
    then have "card (U - fst st1) \<le> card (U - visited)"
      using fin by (intro card_mono) auto
    then have "card (U - fst st1) \<le> fuel" using Cons.prems(2) st by simp
    from Cons.IH [OF rest this] st1 False st show ?thesis by simp
  qed
qed

lemma calculate_hierarchical_depth_total:
  assumes "\<forall>rel\<in>set rels. is_hierarchical rel \<longrightarrow> start_node_id rel \<in> set (map node_id nodes)"
    and "length nodes + length rels \<le> fuel"
  shows "\<exists>depth. calculate_hierarchical_depth fuel nodes rels = Some (Inr depth)"
proof -
  let ?U = "set (map node_id nodes) \<union> set (map end_node_id rels)"
  have fin: "finite ?U" by simp
  have closed: "\<forall>x children. adjacency_of nodes rels x = Some children \<longrightarrow> set children \<subseteq> ?U"
    by (auto simp: adjacency_of_def split: if_splits)
  have "card ?U \<le> card (set (map node_id nodes)) + card (set (map end_node_id rels))"
    by (rule card_Un_le)
  also have "\<dots> \<le> length nodes + length rels"
    using card_length [of "map node_id nodes"] card_length [of "map end_node_id rels"] by simp
  finally have "card (?U - fst ({} :: string set, 0 :: int)) \<le> fuel" using assms(2) by simp
  from dfs_starts_total [OF fin closed _ this, where nodes = nodes] obtain st' where
    "dfs_starts fuel (adjacency_of nodes rels) nodes ({}, 0) = Some st'" by auto
  then show ?thesis
    by (cases st') (simp add: calculate_hierarchical_depth_def add_edges_init [OF assms(1)])
qed

section \<open>Hierarchical depth of a chain\<close>

lemma chain_adjacency_cong:
  "(\<And>x. x \<in> set vs \<Longrightarrow> adj x = adj' x) \<Longrightarrow> chain_adjacency adj vs = chain_adjacency adj' vs"
  by (induction adj vs rule: chain_adjacency.induct) auto

lemma is_chain_length: "is_chain vs rels \<Longrightarrow> length vs = Suc (length rels)"
  by (induction vs rels rule: is_chain.induct) auto

lemma is_chain_starts: "is_chain vs rels \<Longrightarrow> rel \<in> set rels \<Longrightarrow> start_node_id rel \<in> set vs"
  by (induction vs rels rule: is_chain.induct) auto

lemma is_chain_hierarchical: "is_chain vs rels \<Longrightarrow> rel \<in> set rels \<Longrightarrow> is_hierarchical rel"
  by (induction vs rels rule: is_chain.induct) auto

lemma adjacency_of_chain:
  "is_chain vs rels \<Longrightarrow> distinct vs \<Longrightarrow> set vs \<subseteq> set (map node_id nodes) \<Longrightarrow>
   chain_adjacency (adjacency_of nodes rels) vs"
proof (induction vs rels rule: is_chain.induct)
  case (1 v)
  then show ?case by (simp add: adjacency_of_def)
next
  case (2 v w vs rel rels)
  then have chain: "is_chain (w # vs) rels" and hier: "is_hierarchical rel"
    and st: "start_node_id rel = v" and en: "end_node_id rel = w" by simp_all
  have v: "v \<notin> set (w # vs)" using "2.prems"(2) by simp
  have none: "filter (\<lambda>r. is_hierarchical r \<and> start_node_id r = v) rels = []"
    using is_chain_starts [OF chain] v by (auto simp: filter_empty_conv)
  have first: "adjacency_of nodes (rel # rels) v = Some [w]"
    using "2.prems"(3) hier st en none by (simp add: adjacency_of_def)
  have "chain_adjacency (adjacency_of nodes rels) (w # vs)"
    using "2.IH" [OF chain] "2.prems" by simp
  moreover have "adjacency_of nodes (rel # rels) x = adjacency_of nodes rels x"
    if "x \<in> set (w # vs)" for x
    using that v st by (auto simp: adjacency_of_def)
  ultimately have "chain_adjacency (adjacency_of nodes (rel # rels)) (w # vs)"
    using chain_adjacency_cong [of "w # vs" "adjacency_of nodes (rel # rels)" "adjacency_of nodes rels"]
    by simp
  with first show ?case by simp
qed simp_all

lemma dfs_chain:
  "chain_adjacency adj (v # vs) \<Longrightarrow> distinct (v # vs) \<Longrightarrow> set (v # vs) \<inter> visited = {} \<Longrightarrow>
   length (v # vs) \<le> fuel \<Longrightarrow>
   dfs fuel adj v depth (visited, max_depth) =
     Some (visited \<union> set (v # vs), max max_depth (depth + int (length vs)))"
proof (induction vs arbitrary: v fuel depth visited max_depth)
  case Nil
  then obtain k where k: "fuel = Suc k" by (cases fuel) auto
  from Nil show ?case by (auto simp: k)
next
  case (Cons w vs)
  then obtain k where k: "fuel = Suc k" by (cases fuel) auto
  have adj: "adj v = Some [w]" and rest: "chain_adjacency adj (w # vs)"
    using Cons.prems(1) by simp_all
  let ?vis = "insert v visited"
  let ?md = "if depth > max_depth then depth else max_depth"
  have w: "w \<notin> ?vis" using Cons.prems(2,3) by auto
  have "dfs k adj w (depth + 1) (?vis, ?md) =
          Some (?vis \<union> set (w # vs), max ?md (depth + 1 + int (length vs)))"
  proof (rule Cons.IH [OF rest])
    show "distinct (w # vs)" using Cons.prems(2) by simp
    show "set (w # vs) \<inter> ?vis = {}" using Cons.prems(2,3) by auto
    show "length (w # vs) \<le> k" using Cons.prems(4) k by simp
  qed
  then show ?case using adj w by (auto simp: k max_def)
qed

lemma dfs_starts_visited:
  "set (map node_id nodes) \<subseteq> visited \<Longrightarrow>
   dfs_starts fuel adj nodes (visited, max_depth) = Some (visited, max_depth)"
  by (induction nodes) auto

text \<open>
  C8. For a linear chain of hierarchical relationships over distinct nodes
  (\<open>n\<close> relationships, \<open>n + 1\<close> nodes, \<open>n \<ge> 0\<close>), given with a node list that names exactly
  the nodes of the chain and starts with the root, the hierarchical depth is \<open>n\<close>, for
  every bound on the recursion depth of at least \<open>n + 1\<close>. (Python's own recursion limit
  is not part of the model.)
\<close>

theorem chain_depth:
  assumes chain: "is_chain vs relationships" and dist: "distinct vs"
    and ids: "set (map node_id nodes) = set vs"
    and root: "nodes \<noteq> []" "node_id (hd nodes) = hd vs"
    and fuel: "length vs \<le> fuel"
  shows "calculate_hierarchical_depth fuel nodes relationships =
           Some (Inr (int (length relationships)))"
proof -
  from is_chain_length [OF chain] obtain v rest where vs: "vs = v # rest"
    and len: "length rest = length relationships" by (cases vs) auto
  from root obtain node others where nodes: "nodes = node # others" and nid: "node_id node = v"
    by (cases nodes) (auto simp: vs)
  have known: "\<forall>rel\<in>set relationships.
                 is_hierarchical rel \<longrightarrow> start_node_id rel \<in> set (map node_id nodes)"
    using is_chain_starts [OF chain] ids by auto
  let ?adj = "adjacency_of nodes relationships"
  have adj: "add_edges relationships (init_adjacency nodes) = Inr ?adj"
    by (rule add_edges_init [OF known])
  have "set vs \<subseteq> set (map node_id nodes)" using ids by blast
  from adjacency_of_chain [OF chain dist this]
  have ca: "chain_adjacency ?adj (v # rest)" by (simp only: vs)
  have d: "dfs fuel ?adj v 0 ({}, 0) = Some ({} \<union> set (v # rest), max 0 (0 + int (length rest)))"
    by (rule dfs_chain [OF ca]) (use dist fuel vs in simp_all)
  have others: "set (map node_id others) \<subseteq> set (v # rest)" using ids nodes vs by auto
  have "dfs_starts fuel ?adj nodes ({}, 0) = Some (set (v # rest), int (length relationships))"
    using d dfs_starts_visited [OF others, of fuel ?adj "int (length relationships)"]
    by (simp add: nodes nid len)
  then show ?thesis by (simp add: calculate_hierarchical_depth_def adj)
qed

lemmas scenario_defs = taxonomy_node_def chain_relationships_def is_hierarchical_def
  rel_is_hierarchical_def

theorem chain_depth_witness:
  "is_chain [''A'', ''B'', ''C''] chain_relationships \<and>
   distinct [''A'', ''B'', ''C''] \<and>
   calculate_hierarchical_depth 3 (map taxonomy_node [''A'', ''B'', ''C'']) chain_relationships =
     Some (Inr 2) \<and>
   calculate_hierarchical_depth 1 [taxonomy_node ''A''] [] = Some (Inr 0)"
proof -
  have c: "is_chain [''A'', ''B'', ''C''] chain_relationships" by (simp add: scenario_defs)
  have d: "distinct [''A'', ''B'', ''C'']" by simp
  have i: "set (map node_id (map taxonomy_node [''A'', ''B'', ''C''])) = set [''A'', ''B'', ''C'']"
    by (simp add: taxonomy_node_def)
  have a: "calculate_hierarchical_depth 3 (map taxonomy_node [''A'', ''B'', ''C''])
             chain_relationships = Some (Inr (int (length chain_relationships)))"
    by (rule chain_depth [OF c d i]) (simp_all add: taxonomy_node_def)
  have b: "calculate_hierarchical_depth 1 [taxonomy_node ''A''] [] = Some (Inr (int (length ([] :: ATLASRelationship list))))"
    by (rule chain_depth [of "[''A'']"]) (simp_all add: taxonomy_node_def)
  show ?thesis using c d a b by (simp add: chain_relationships_def)
qed

lemma analyze_taxonomy_eq:
  "analyze_taxonomy fuel domain client = analyze_taxonomy_func fuel domain client"
  by (cases "analyze_taxonomy_func fuel domain client")
     (simp_all add: analyze_taxonomy_def default_config_def atlas_operation_plain)

text \<open>
  C10. Building the adjacency looks every hierarchical relationship's start node up among
  the given nodes. If some hierarchical relationship starts at a node that is not in the
  node list, the function raises \<open>KeyError\<close> for a node outside the list, for every bound
  on the recursion; if every hierarchical relationship starts at a listed node, it returns
  a depth. \<open>analyze_taxonomy\<close> gathers incoming relationships too, so it raises
  \<open>KeyError\<close> as soon as a gathered hierarchical relationship comes from a node outside
  the analyzed set.
\<close>

theorem hierarchical_depth_KeyError:
  "((\<exists>rel\<in>set relationships.
        is_hierarchical rel \<and> start_node_id rel \<notin> set (map node_id nodes)) \<longrightarrow>
      (\<exists>k. calculate_hierarchical_depth fuel nodes relationships = Some (Inl (KeyError k)) \<and>
           k \<notin> set (map node_id nodes))) \<and>
   ((\<forall>rel\<in>set relationships.
        is_hierarchical rel \<longrightarrow> start_node_id rel \<in> set (map node_id nodes)) \<longrightarrow>
      (\<exists>depth. calculate_hierarchical_depth (length nodes + length relationships)
                  nodes relationships = Some (Inr depth))) \<and>
   ((\<exists>rel\<in>set (unique_by_id (gather_relationships (Some adapter)
                    (find_nodes (Some adapter) [(''domain'', PStr domain)]))).
        is_hierarchical rel \<and>
        start_node_id rel \<notin>
          set (map node_id (find_nodes (Some adapter) [(''domain'', PStr domain)]))) \<longrightarrow>
      (\<exists>k. analyze_taxonomy fuel domain (Some adapter) = Some (Inl (KeyError k))))"
proof (intro conjI impI)
  assume "\<exists>rel\<in>set relationships.
             is_hierarchical rel \<and> start_node_id rel \<notin> set (map node_id nodes)"
  then have "\<exists>rel\<in>set relationships.
       is_hierarchical rel \<and> start_node_id rel \<notin> dom (init_adjacency nodes)"
    by (simp only: dom_init_adjacency)
  from add_edges_KeyError [OF this]
  show "\<exists>k. calculate_hierarchical_depth fuel nodes relationships = Some (Inl (KeyError k)) \<and>
             k \<notin> set (map node_id nodes)"
    by (auto simp: calculate_hierarchical_depth_def dom_init_adjacency simp del: set_map)
next
  assume "\<forall>rel\<in>set relationships.
        is_hierarchical rel \<longrightarrow> start_node_id rel \<in> set (map node_id nodes)"
  then show "\<exists>depth. calculate_hierarchical_depth (length nodes + length relationships)
                  nodes relationships = Some (Inr depth)"
    by (rule calculate_hierarchical_depth_total) simp
next
  let ?nodes = "find_nodes (Some adapter) [(''domain'', PStr domain)]"
  let ?rels = "unique_by_id (gather_relationships (Some adapter) ?nodes)"
  assume "\<exists>rel\<in>set ?rels. is_hierarchical rel \<and> start_node_id rel \<notin> set (map node_id ?nodes)"
  then have "\<exists>rel\<in>set ?rels. is_hierarchical rel \<and> start_node_id rel \<notin> dom (init_adjacency ?nodes)"
    by (simp only: dom_init_adjacency)
  from add_edges_KeyError [OF this] obtain k where
    "add_edges ?rels (init_adjacency ?nodes) = Inl (KeyError k)" by blast
  then have "calculate_hierarchical_depth fuel ?nodes ?rels = Some (Inl (KeyError k))"
    by (simp add: calculate_hierarchical_depth_def)
  then have "analyze_taxonomy fuel domain (Some adapter) = Some (Inl (KeyError k))"
    by (simp add: analyze_taxonomy_eq analyze_taxonomy_func_def Let_def)
  then show "\<exists>k. analyze_taxonomy fuel domain (Some adapter) = Some (Inl (KeyError k))" ..
qed


lemma partial_nodes:
  "find_nodes (Some partial_adapter) props = map taxonomy_node [''B'', ''C'']"
  by (simp add: find_nodes_def partial_adapter_def)

lemma partial_unique:
  "unique_by_id (gather_relationships (Some partial_adapter) (map taxonomy_node [''B'', ''C''])) =
     [\<lparr>rel_id = ''r2'', rel_type = PART_OF, start_node_id = ''B'', end_node_id = ''C''\<rparr>,
      \<lparr>rel_id = ''r1'', rel_type = IS_A, start_node_id = ''A'', end_node_id = ''B''\<rparr>]"
  by (simp add: unique_by_id_def gather_relationships_def find_relationships_def
      partial_adapter_def matching_relationships_def chain_relationships_def taxonomy_node_def)

theorem hierarchical_depth_KeyError_witness:
  "(\<exists>k. calculate_hierarchical_depth 5 (map taxonomy_node [''B'', ''C'']) chain_relationships =
          Some (Inl (KeyError k)) \<and> k \<notin> {''B'', ''C''}) \<and>
   (\<exists>depth. calculate_hierarchical_depth 5 (map taxonomy_node [''A'', ''B'', ''C''])
              chain_relationships = Some (Inr depth)) \<and>
   (\<exists>k. analyze_taxonomy 5 ''energy'' (Some partial_adapter) = Some (Inl (KeyError k)))"
proof -
  have bad: "\<exists>rel\<in>set chain_relationships.
               is_hierarchical rel \<and>
               start_node_id rel \<notin> set (map node_id (map taxonomy_node [''B'', ''C'']))"
    by (simp add: scenario_defs)
  have good: "\<forall>rel\<in>set chain_relationships.
               is_hierarchical rel \<longrightarrow>
               start_node_id rel \<in> set (map node_id (map taxonomy_node [''A'', ''B'', ''C'']))"
    by (simp add: scenario_defs)
  have gathered: "\<exists>rel\<in>set (unique_by_id (gather_relationships (Some partial_adapter)
                    (find_nodes (Some partial_adapter) [(''domain'', PStr ''energy'')]))).
        is_hierarchical rel \<and>
        start_node_id rel \<notin>
          set (map node_id (find_nodes (Some partial_adapter) [(''domain'', PStr ''energy'')]))"
    by (simp only: partial_nodes partial_unique) (simp add: scenario_defs)
  have a: "\<exists>k. calculate_hierarchical_depth 5 (map taxonomy_node [''B'', ''C'']) chain_relationships =
          Some (Inl (KeyError k)) \<and> k \<notin> {''B'', ''C''}"
    using hierarchical_depth_KeyError
            [where relationships = chain_relationships and fuel = 5 and
                   nodes = "map taxonomy_node [''B'', ''C'']", THEN conjunct1, rule_format, OF bad]
    by (simp add: taxonomy_node_def)
  have five: "length (map taxonomy_node [''A'', ''B'', ''C'']) + length chain_relationships = 5"
    by (simp add: chain_relationships_def)
  have b: "\<exists>depth. calculate_hierarchical_depth 5 (map taxonomy_node [''A'', ''B'', ''C''])
              chain_relationships = Some (Inr depth)"
    by (rule hierarchical_depth_KeyError
            [where relationships = chain_relationships and
                   nodes = "map taxonomy_node [''A'', ''B'', ''C'']",
             THEN conjunct2, THEN conjunct1, THEN mp, OF good, unfolded five])
  have c: "\<exists>k. analyze_taxonomy 5 ''energy'' (Some partial_adapter) = Some (Inl (KeyError k))"
    by (rule hierarchical_depth_KeyError
            [where adapter = partial_adapter and domain = "''energy''" and fuel = 5,
             THEN conjunct2, THEN conjunct2, rule_format, OF gathered])
  from a b c show ?thesis by blast
qed

end
